theory Spec2Isabelle
  imports Main "HOL-Library.Word" "HOL-Library.Char_ord" "HOL-Library.List_Lexorder"
    "HOL-Library.AList"
begin

section \<open>Go strings\<close>

text \<open>
  A Go string is a sequence of bytes, here a \<^typ>\<open>string\<close> (a list of 8-bit characters).
  With \<^theory_text>\<open>Char_ord\<close> and \<^theory_text>\<open>List_Lexorder\<close> the order \<open><\<close> on strings is the
  byte-wise lexicographic order of Go's \<open><\<close>.
\<close>

abbreviation LF :: char where "LF \<equiv> CHR 0x0A"
abbreviation CR :: char where "CR \<equiv> CHR 0x0D"
abbreviation TAB :: char where "TAB \<equiv> CHR 0x09"
abbreviation QUOTE :: char where "QUOTE \<equiv> CHR 0x27"

text \<open>\<open>strings.HasPrefix(s, prefix)\<close>.\<close>

definition HasPrefix :: "string \<Rightarrow> string \<Rightarrow> bool" where
  "HasPrefix s p = (take (length p) s = p)"

text \<open>\<open>strings.Index(s, substr)\<close>: the index of the first occurrence, or -1.\<close>

fun IndexFrom :: "nat \<Rightarrow> string \<Rightarrow> string \<Rightarrow> int" where
  "IndexFrom i [] sub = (if sub = [] then int i else -1)"
| "IndexFrom i (c # cs) sub =
     (if HasPrefix (c # cs) sub then int i else IndexFrom (Suc i) cs sub)"

definition Index :: "string \<Rightarrow> string \<Rightarrow> int" where
  "Index s sub = IndexFrom 0 s sub"

text \<open>
  \<open>strings.Trim(s, cutset)\<close> removes every leading and every trailing byte that is in
  the cutset (the cutsets of this program are ASCII, so bytes and code points agree).
\<close>

definition Trim :: "string \<Rightarrow> string \<Rightarrow> string" where
  "Trim s cutset =
     rev (dropWhile (\<lambda>c. c \<in> set cutset) (rev (dropWhile (\<lambda>c. c \<in> set cutset) s)))"

text \<open>
  The slice expression \<open>s[lo:hi]\<close>: a run-time panic (\<open>None\<close>) unless
  \<open>lo \<le> hi \<le> len(s)\<close>.
\<close>

definition slice :: "string \<Rightarrow> nat \<Rightarrow> nat \<Rightarrow> string option" where
  "slice s lo hi =
     (if lo \<le> hi \<and> hi \<le> length s then Some (take (hi - lo) (drop lo s)) else None)"

text \<open>Decimal digits, as \<open>%d\<close> prints them.\<close>

definition digit :: "nat \<Rightarrow> char" where
  "digit d = ''0123456789'' ! d"

fun dec :: "nat \<Rightarrow> string" where
  "dec n = (if n < 10 then [digit n] else dec (n div 10) @ [digit (n mod 10)])"

declare dec.simps [simp del]

definition showInt64 :: "64 word \<Rightarrow> string" where
  "showInt64 w = (if sint w < 0 then ''-'' else '''') @ dec (nat \<bar>sint w\<bar>)"

section \<open>Byte humanization\<close>

text \<open>
  \<open>humanReadableBytes\<close> computes in \<open>float64\<close>. Every floating-point value that occurs
  is an integer or an integer divided by a power of two, so the computation is written
  out exactly over the integers:
  \<^item> \<open>float64(bytes)\<close> is exact below \<open>2^53\<close> and rounds to 53 significant bits,
    ties to even, above (\<open>round53\<close> on the magnitude, \<open>float64\<close> below);
  \<^item> \<open>math.Logb\<close> is the binary exponent \<open>\<lfloor>log2 |x|\<rfloor>\<close> (\<open>logb\<close> below);
  \<^item> \<open>place\<close> is that exponent divided by 10; \<open>math.Floor(place)\<close> and
    \<open>int64(place)\<close> are both \<open>e div 10\<close>;
  \<^item> \<open>math.Pow(1024, k)\<close> is the power of two \<open>1024 ^ k\<close> and the division by it is exact;
  \<^item> \<open>%.2f\<close> prints the exact quotient rounded to hundredths, ties to even (\<open>fmt2f\<close>).
\<close>

fun logb :: "nat \<Rightarrow> nat" where
  "logb n = (if n < 2 then 0 else Suc (logb (n div 2)))"

declare logb.simps [simp del]

definition round53 :: "nat \<Rightarrow> nat" where
  "round53 a =
     (let s = logb a - 52; q = a div 2 ^ s; r = a mod 2 ^ s
      in (if 2 * r > 2 ^ s \<or> (2 * r = 2 ^ s \<and> odd q) then q + 1 else q) * 2 ^ s)"

definition float64 :: "int \<Rightarrow> int" where
  "float64 i = (if nat \<bar>i\<bar> < 2 ^ 53 then i else sgn i * int (round53 (nat \<bar>i\<bar>)))"

text \<open>\<open>hundredths x d\<close> is \<open>|x| / d\<close> in hundredths, rounded half to even.\<close>

definition hundredths :: "int \<Rightarrow> nat \<Rightarrow> nat" where
  "hundredths x d =
     (let n = nat \<bar>x\<bar> * 100; q = n div d; r = n mod d
      in if 2 * r > d \<or> (2 * r = d \<and> odd q) then q + 1 else q)"

definition fmt2f :: "int \<Rightarrow> nat \<Rightarrow> string" where
  "fmt2f x d =
     (let h = hundredths x d
      in (if x < 0 then ''-'' else '''') @ dec (h div 100) @ ''.'' @
         [digit (h div 10 mod 10), digit (h mod 10)])"

definition suf :: "string list" where
  "suf = [''B'', ''KB'', ''MB'', ''GB'', ''TB'', ''PB'', ''EB'']"

definition humanReadableBytes :: "64 word \<Rightarrow> string" where
  "humanReadableBytes bytes =
     (if bytes = 0 then ''0'' @ suf ! 0
      else let x = float64 (sint bytes);
               e = logb (nat \<bar>x\<bar>);
               k = e div 10
           in fmt2f x (1024 ^ k) @ suf ! k)"

section \<open>Short ids\<close>

text \<open>
  The first statement of \<open>logStatus\<close> after the log file is obtained: the text shown for
  a status id. \<open>None\<close> is the run-time panic of the slice \<open>status.ID[7:19]\<close>.
\<close>

definition idText :: "string \<Rightarrow> string option" where
  "idText ident = (if HasPrefix ident ''sha256:'' then slice ident 7 19 else Some ident)"

section \<open>The flat-file logger\<close>

subsection \<open>Build events\<close>

text \<open>
  The event types of the build client, with the fields the logger reads. An instant
  (\<open>time.Time\<close>) is a number of nanoseconds; how it prints
  (\<open>t.In(time.Local)\<close> under \<open>%s\<close>) is a parameter \<open>fmtTime\<close> of the operations.
\<close>

type_synonym time = int

record Vertex =
  Digest :: string
  Name :: string
  Cached :: bool
  Error :: string

record VertexStatus =
  ID :: string
  sVertex :: string
  sName :: string
  Total :: "64 word"
  Current :: "64 word"
  Timestamp :: time
  Completed :: "time option"

record VertexLog =
  lVertex :: string
  Data :: string
  lTimestamp :: time

record SolveStatus =
  Vertexes :: "Vertex list"
  Statuses :: "VertexStatus list"
  Logs :: "VertexLog list"

subsection \<open>State\<close>

text \<open>
  An open file is its bytes and the offset of the handle. The files are opened write-only
  without \<open>O_APPEND\<close>: a write replaces the bytes at the offset and extends the file when
  it runs past the end (a gap, which this program never makes, would read as zero bytes);
  a write of no bytes changes nothing.
\<close>

record osFile =
  content :: string
  pos :: nat

definition write_at :: "osFile \<Rightarrow> string \<Rightarrow> osFile" where
  "write_at f s =
     (if s = [] then f
      else \<lparr>content = take (pos f) (content f)
                       @ replicate (pos f - length (content f)) (CHR 0x00)
                       @ s @ drop (pos f + length s) (content f),
            pos = pos f + length s\<rparr>)"

text \<open>
  The logger. \<open>currVertexStatuses\<close> is one map for the whole logger, keyed by status id
  only; it is kept as an association list with distinct keys. Listeners are callbacks;
  a listener is named by a number and each call is recorded in \<open>calls\<close> as
  (listener, service, line). The last three fields are the environment: \<open>faults\<close> tells
  for each coming system call (creating the directory, opening, writing, seeking) whether
  it fails, \<open>clock\<close> and \<open>ticks\<close> give the reading of each call of \<open>time.Now()\<close>.
  The mutex is not modelled: the operations are taken one at a time.
\<close>

type_synonym listener = nat

record flatfileLogger =
  LogDirectory :: string
  currVertexStatuses :: "(string \<times> string) list"
  openFiles :: "string \<rightharpoonup> osFile"
  logLineListeners :: "listener list"
  verbose :: bool
  calls :: "(listener \<times> string \<times> string) list"
  faults :: "bool list"
  clock :: "nat \<Rightarrow> time"
  ticks :: nat

datatype error =
    MkdirFailed
  | OpenFailed
  | WriteFailed
  | SeekFailed
  | CouldNotLogFailure string error
  | CouldNotWrite string error
  | CouldNotStatus string error

text \<open>What a call gives back: \<open>nil\<close>, an error value, or a run-time panic.\<close>

datatype outcome = Ok | Err error | Panic

definition NewFlatfileLogger :: "string \<Rightarrow> bool \<Rightarrow> bool list \<Rightarrow> (nat \<Rightarrow> time) \<Rightarrow> flatfileLogger" where
  "NewFlatfileLogger logDirectory verb fs clk =
     \<lparr>LogDirectory = logDirectory, currVertexStatuses = [], openFiles = Map.empty,
      logLineListeners = [], verbose = verb, calls = [], faults = fs, clock = clk, ticks = 0\<rparr>"

definition AddLogLineListener :: "flatfileLogger \<Rightarrow> listener \<Rightarrow> flatfileLogger" where
  "AddLogLineListener st processLog =
     st\<lparr>logLineListeners := logLineListeners st @ [processLog]\<rparr>"

definition next_fault :: "flatfileLogger \<Rightarrow> bool \<times> flatfileLogger" where
  "next_fault st = (case faults st of [] \<Rightarrow> (False, st) | b # bs \<Rightarrow> (b, st\<lparr>faults := bs\<rparr>))"

definition Now :: "flatfileLogger \<Rightarrow> time \<times> flatfileLogger" where
  "Now st = (clock st (ticks st), st\<lparr>ticks := Suc (ticks st)\<rparr>)"

text \<open>
  \<open>f.WriteString(s)\<close>: whether it failed, the file, the state. A failing write is taken
  to write nothing.
\<close>

definition WriteString :: "flatfileLogger \<Rightarrow> osFile \<Rightarrow> string \<Rightarrow> bool \<times> osFile \<times> flatfileLogger" where
  "WriteString st f s =
     (case next_fault st of
        (True, st') \<Rightarrow> (True, f, st')
      | (False, st') \<Rightarrow> (False, write_at f s, st'))"

text \<open>\<open>f.Seek(off, io.SeekCurrent)\<close>; an offset before the start of the file is an error.\<close>

definition Seek :: "flatfileLogger \<Rightarrow> osFile \<Rightarrow> int \<Rightarrow> bool \<times> osFile \<times> flatfileLogger" where
  "Seek st f off =
     (case next_fault st of
        (True, st') \<Rightarrow> (True, f, st')
      | (False, st') \<Rightarrow>
          if int (pos f) + off < 0 then (True, f, st')
          else (False, f\<lparr>pos := nat (int (pos f) + off)\<rparr>, st'))"

text \<open>
  \<open>logFile\<close>: the open file of the service, created empty (\<open>O_TRUNC\<close>) on first use. The
  empty write after opening changes nothing and its result is dropped.
\<close>

definition logFile :: "flatfileLogger \<Rightarrow> string \<Rightarrow> (error + osFile) \<times> flatfileLogger" where
  "logFile st service =
     (case openFiles st service of
        Some existingFile \<Rightarrow> (Inr existingFile, st)
      | None \<Rightarrow>
          (case next_fault st of
             (True, st1) \<Rightarrow> (Inl MkdirFailed, st1)
           | (False, st1) \<Rightarrow>
               (case next_fault st1 of
                  (True, st2) \<Rightarrow> (Inl OpenFailed, st2)
                | (False, st2) \<Rightarrow>
                    (Inr \<lparr>content = [], pos = 0\<rparr>,
                     st2\<lparr>openFiles := (openFiles st2)(service \<mapsto> \<lparr>content = [], pos = 0\<rparr>)\<rparr>))))"

text \<open>The handle is shared with \<open>openFiles\<close>: what is done to the file shows there.\<close>

definition store :: "flatfileLogger \<Rightarrow> string \<Rightarrow> osFile \<Rightarrow> flatfileLogger" where
  "store st service f = st\<lparr>openFiles := (openFiles st)(service \<mapsto> f)\<rparr>"

definition notify :: "flatfileLogger \<Rightarrow> string \<Rightarrow> string \<Rightarrow> flatfileLogger" where
  "notify st service line =
     st\<lparr>calls := calls st @ map (\<lambda>listener. (listener, service, line)) (logLineListeners st)\<rparr>"

subsection \<open>Log\<close>

definition Log :: "(time \<Rightarrow> string) \<Rightarrow> flatfileLogger \<Rightarrow> string \<Rightarrow> time \<Rightarrow> string
    \<Rightarrow> outcome \<times> flatfileLogger" where
  "Log fmtTime st service when message =
     (case logFile st service of
        (Inl err, st1) \<Rightarrow> (Err err, st1)
      | (Inr f, st1) \<Rightarrow>
          let messageString = Trim message [CR, LF];
              (failed, f1, st2) =
                 WriteString st1 f (''['' @ fmtTime when @ ''] '' @ messageString @ [LF]);
              st3 = notify (store st2 service f1) service (messageString @ [LF])
          in (if failed then Err WriteFailed else Ok, st3))"

subsection \<open>logStatus\<close>

text \<open>
  The text of a rendered line after its date: \<open>s[strings.Index(s, "]")+2:]\<close>. Every
  line the logger renders has a \<open>]\<close> followed by a space and a line feed, so the index
  is in range (\<open>removeDate_in_range\<close> below).
\<close>

definition removeDate :: "string \<Rightarrow> string" where
  "removeDate s = drop (nat (Index s '']'' + 2)) s"

text \<open>
  The block of status lines: one line per entry of the map, sorted by the text after
  the date. Go leaves open the order in which a map is walked and the order
  \<open>sort.Slice\<close> gives to lines with equal keys; the insertion sort here is one such order.
\<close>

definition statusLines :: "(string \<times> string) list \<Rightarrow> string list" where
  "statusLines m = sort_key removeDate (map (\<lambda>(k, s). s @ [LF]) m)"

definition statusText :: "string \<Rightarrow> VertexStatus \<Rightarrow> string" where
  "statusText idt status =
     (if Total status \<noteq> 0
      then idt @ '' '' @ humanReadableBytes (Current status) @ ''/'' @ humanReadableBytes (Total status)
      else idt @ '' '' @ humanReadableBytes (Current status))"

definition logStatus :: "(time \<Rightarrow> string) \<Rightarrow> flatfileLogger \<Rightarrow> string \<Rightarrow> VertexStatus
    \<Rightarrow> outcome \<times> flatfileLogger" where
  "logStatus fmtTime st service status =
     (case logFile st service of
        (Inl err, st1) \<Rightarrow> (Err err, st1)
      | (Inr f, st1) \<Rightarrow>
          (case idText (ID status) of
             None \<Rightarrow> (Panic, st1)
           | Some idt \<Rightarrow>
               let statusTextTimestamp =
                     ''['' @ fmtTime (Timestamp status) @ ''] '' @ statusText idt status;
                   (f1, st2) =
                     (case Completed status of
                        Some _ \<Rightarrow>
                          (let st' = st1\<lparr>currVertexStatuses :=
                                          AList.delete (ID status) (currVertexStatuses st1)\<rparr>;
                               (_, f', st'') = WriteString st' f (statusTextTimestamp @ [LF])
                           in (f', st''))
                      | None \<Rightarrow>
                          (f, st1\<lparr>currVertexStatuses :=
                                   AList.update (ID status) statusTextTimestamp
                                     (currVertexStatuses st1)\<rparr>));
                   statuses = statusLines (currVertexStatuses st2);
                   (failed, f2, st3) = WriteString st2 f1 (concat statuses)
               in if failed then (Err WriteFailed, store st3 service f2)
                  else
                    (case Seek st3 f2 (- int (length (concat statuses))) of
                       (True, f3, st4) \<Rightarrow> (Err SeekFailed, store st4 service f3)
                     | (False, f3, st4) \<Rightarrow>
                         let line = (if statuses = [] then statusText idt status
                                     else removeDate (last statuses))
                         in (Ok, notify (store st4 service f3) service (line @ [LF])))))"

subsection \<open>ProcessStatus\<close>

text \<open>
  The three loops of \<open>ProcessStatus\<close> each run a body over a list and return at the
  first error (or panic); \<open>forEach\<close> is that loop, and \<open>vertexStep\<close>, \<open>statusStep\<close>
  and \<open>logStep\<close> are the three bodies.
\<close>

fun forEach :: "(flatfileLogger \<Rightarrow> 'a \<Rightarrow> outcome \<times> flatfileLogger) \<Rightarrow> flatfileLogger \<Rightarrow> 'a list
    \<Rightarrow> outcome \<times> flatfileLogger" where
  "forEach body st [] = (Ok, st)"
| "forEach body st (x # xs) =
     (case body st x of
        (Ok, st') \<Rightarrow> forEach body st' xs
      | (r, st') \<Rightarrow> (r, st'))"

text \<open>\<open>logger.Log(service, time.Now(), message)\<close>.\<close>

definition LogNow :: "(time \<Rightarrow> string) \<Rightarrow> flatfileLogger \<Rightarrow> string \<Rightarrow> string
    \<Rightarrow> outcome \<times> flatfileLogger" where
  "LogNow fmtTime st service message =
     (let (now, st1) = Now st in Log fmtTime st1 service now message)"

text \<open>The diagnostic line of verbose mode; what \<open>Log\<close> returns is dropped.\<close>

definition logVerbose :: "(time \<Rightarrow> string) \<Rightarrow> flatfileLogger \<Rightarrow> string \<Rightarrow> string
    \<Rightarrow> flatfileLogger" where
  "logVerbose fmtTime st service message =
     (if verbose st then snd (LogNow fmtTime st service message) else st)"

definition vertexStep :: "(time \<Rightarrow> string) \<Rightarrow> string \<Rightarrow> flatfileLogger \<Rightarrow> Vertex
    \<Rightarrow> outcome \<times> flatfileLogger" where
  "vertexStep fmtTime service st v =
     (let st1 = logVerbose fmtTime st service
                  (''Vertex: '' @ [QUOTE] @ Name v @ [QUOTE] @ '',  '' @ [QUOTE] @ Error v @ [QUOTE]
                     @ '',  '' @ [QUOTE] @ Digest v @ [QUOTE])
      in if Index (Name v) ''[internal]'' \<noteq> 0
         then let logMessage = (if Cached v then ''cached: '' @ Name v else Name v);
                  (r1, st2) = (if Error v \<noteq> []
                               then LogNow fmtTime st1 service (Error v @ '': LAYERID='' @ Digest v)
                               else (Ok, st1))
              in (case r1 of
                    Err err \<Rightarrow> (Err (CouldNotLogFailure service err), st2)
                  | _ \<Rightarrow>
                      (case LogNow fmtTime st2 service logMessage of
                         (Err err, st3) \<Rightarrow> (Err (CouldNotWrite service err), st3)
                       | (_, st3) \<Rightarrow> (Ok, st3)))
         else (Ok, st1))"

definition statusStep :: "(time \<Rightarrow> string) \<Rightarrow> string \<Rightarrow> flatfileLogger \<Rightarrow> VertexStatus
    \<Rightarrow> outcome \<times> flatfileLogger" where
  "statusStep fmtTime service st vs =
     (let st1 = logVerbose fmtTime st service
                  (''Status: '' @ [QUOTE] @ sName vs @ [QUOTE] @ ''.  '' @ [QUOTE] @ ID vs @ [QUOTE]
                     @ '',  '' @ [QUOTE] @ sVertex vs @ [QUOTE] @ '',  (curr='' @ showInt64 (Current vs)
                     @ '', total='' @ showInt64 (Total vs) @ '')'')
      in (case logStatus fmtTime st1 service vs of
            (Err err, st2) \<Rightarrow> (Err (CouldNotStatus service err), st2)
          | (r, st2) \<Rightarrow> (r, st2)))"

definition logStep :: "(time \<Rightarrow> string) \<Rightarrow> string \<Rightarrow> flatfileLogger \<Rightarrow> VertexLog
    \<Rightarrow> outcome \<times> flatfileLogger" where
  "logStep fmtTime service st log =
     (let st1 = logVerbose fmtTime st service
                  (''Log: '' @ [QUOTE] @ Data log @ [QUOTE] @ '',  '' @ [QUOTE] @ lVertex log @ [QUOTE]);
          logMessage = Data log
      in (case Log fmtTime st1 service (lTimestamp log) (Trim logMessage [CR, LF]) of
            (Err err, st2) \<Rightarrow> (Err (CouldNotWrite service err), st2)
          | (_, st2) \<Rightarrow> (Ok, st2)))"

definition ProcessStatus :: "(time \<Rightarrow> string) \<Rightarrow> flatfileLogger \<Rightarrow> string \<Rightarrow> SolveStatus
    \<Rightarrow> outcome \<times> flatfileLogger" where
  "ProcessStatus fmtTime st service status =
     (case forEach (vertexStep fmtTime service) st (Vertexes status) of
        (Ok, st1) \<Rightarrow>
          (case forEach (statusStep fmtTime service) st1 (Statuses status) of
             (Ok, st2) \<Rightarrow> forEach (logStep fmtTime service) st2 (Logs status)
           | (r, st2) \<Rightarrow> (r, st2))
      | (r, st1) \<Rightarrow> (r, st1))"

subsection \<open>Regions of a log file and sequences of updates\<close>

text \<open>
  The cursor of a service's file divides it: the bytes before the cursor are the permanent
  region, the bytes from the cursor on are the tail, which the next write replaces. The
  block is what the last re-render wrote: the status lines of the map.
\<close>

definition permanent :: "flatfileLogger \<Rightarrow> string \<Rightarrow> string" where
  "permanent st service =
     (case openFiles st service of None \<Rightarrow> [] | Some f \<Rightarrow> take (pos f) (content f))"

definition tail :: "flatfileLogger \<Rightarrow> string \<Rightarrow> string" where
  "tail st service =
     (case openFiles st service of None \<Rightarrow> [] | Some f \<Rightarrow> drop (pos f) (content f))"

definition block :: "flatfileLogger \<Rightarrow> string" where
  "block st = concat (statusLines (currVertexStatuses st))"

text \<open>
  A sequence of updates to one service: permanent-line events (calls of \<open>Log\<close>) and
  status events (calls of \<open>logStatus\<close>), in any order.
\<close>

datatype event = PermanentLine time string | StatusChurn VertexStatus

fun applyEvent :: "(time \<Rightarrow> string) \<Rightarrow> string \<Rightarrow> flatfileLogger \<Rightarrow> event
    \<Rightarrow> outcome \<times> flatfileLogger" where
  "applyEvent fmtTime service st (PermanentLine when message) = Log fmtTime st service when message"
| "applyEvent fmtTime service st (StatusChurn status) = logStatus fmtTime st service status"

definition run :: "(time \<Rightarrow> string) \<Rightarrow> string \<Rightarrow> flatfileLogger \<Rightarrow> event list
    \<Rightarrow> outcome \<times> flatfileLogger" where
  "run fmtTime service st evs = forEach (applyEvent fmtTime service) st evs"

text \<open>The number of permanent-line events, and the ids of the completion events.\<close>

fun permanentEvents :: "event list \<Rightarrow> nat" where
  "permanentEvents [] = 0"
| "permanentEvents (PermanentLine when message # evs) = Suc (permanentEvents evs)"
| "permanentEvents (StatusChurn status # evs) = permanentEvents evs"

fun completedIds :: "event list \<Rightarrow> string list" where
  "completedIds [] = []"
| "completedIds (PermanentLine when message # evs) = completedIds evs"
| "completedIds (StatusChurn status # evs) =
     (if Completed status \<noteq> None then ID status # completedIds evs else completedIds evs)"

text \<open>The number of lines of a region: its line feeds.\<close>

definition lineCount :: "string \<Rightarrow> nat" where
  "lineCount s = length (filter (\<lambda>c. c = LF) s)"

section \<open>The cluster health check\<close>

text \<open>
  \<open>checkCluster\<close> and \<open>checkClusterReady\<close> read the world four times: the list of node
  containers (\<open>clusterNodes()\<close>: an error text or the names of the nodes), the run of
  \<open>kubectl\<close> (an error text or its standard output), the clock (\<open>clk i\<close> is the reading of
  the \<open>i\<close>-th call of \<open>time.Now()\<close>) and the operator's answers (what \<open>fmt.Scanln\<close> puts
  into \<open>resp\<close> at each prompt; at the end of the input it puts nothing, and \<open>resp\<close> is
  empty). The library functions \<open>strings.TrimSpace\<close> and
  \<open>time.Parse("2006-01-02T15:04:05Z", _)\<close> are the parameters \<open>trimSpace\<close> and \<open>parseTime\<close>.
\<close>

datatype clusterError =
    ListFailed string
  | NoNodesRunning
  | NodesRemovedOrCrashed nat nat
  | SomeNodesNotRunning
  | CouldNotCheck string
  | InvalidOutput string
  | ExpectedFourNodes
  | InvalidTime string
  | ChoseToRedeploy
  | NotReadyForOverAMinute

text \<open>\<open>strings.Split(s, sep)\<close> for a separator of one byte.\<close>

fun Split :: "string \<Rightarrow> char \<Rightarrow> string list" where
  "Split [] sep = [[]]"
| "Split (c # cs) sep =
     (if c = sep then [] # Split cs sep
      else (case Split cs sep of w # ws \<Rightarrow> (c # w) # ws | [] \<Rightarrow> [[c]]))"

definition Minute :: int where
  "Minute = 60 * 1000000000"

text \<open>The loop over \<open>nodeTimes\<close>: an error at the first time that does not parse.\<close>

fun statusChangeRecent :: "(string \<Rightarrow> string) \<Rightarrow> (string \<Rightarrow> time option) \<Rightarrow> (nat \<Rightarrow> time)
    \<Rightarrow> nat \<Rightarrow> string list \<Rightarrow> bool \<Rightarrow> clusterError + bool" where
  "statusChangeRecent trimSpace parseTime clk i [] recent = Inr recent"
| "statusChangeRecent trimSpace parseTime clk i (timeString # rest) recent =
     (case parseTime (trimSpace timeString) of
        None \<Rightarrow> Inl (InvalidTime (trimSpace timeString))
      | Some statusTime \<Rightarrow>
          statusChangeRecent trimSpace parseTime clk (Suc i) rest
            (if statusTime + Minute > clk i then True else recent))"

text \<open>The prompt loop, over the operator's answers.\<close>

fun askRedeploy :: "string list \<Rightarrow> clusterError option" where
  "askRedeploy [] = None"
| "askRedeploy (resp # later) =
     (if resp = ''y'' \<or> resp = ''Y'' then Some ChoseToRedeploy
      else if resp = ''n'' \<or> resp = ''N'' \<or> resp = [] then None
      else askRedeploy later)"

definition allNodesReady :: "(string \<Rightarrow> string) \<Rightarrow> string list \<Rightarrow> bool" where
  "allNodesReady trimSpace nodesReady = (\<forall>nodeReady \<in> set nodesReady. trimSpace nodeReady = ''True'')"

definition checkClusterReady :: "(string \<Rightarrow> string) \<Rightarrow> (string \<Rightarrow> time option) \<Rightarrow> string + string
    \<Rightarrow> (nat \<Rightarrow> time) \<Rightarrow> string list \<Rightarrow> clusterError option" where
  "checkClusterReady trimSpace parseTime kubectl clk answers =
     (case kubectl of
        Inl err \<Rightarrow> Some (CouldNotCheck err)
      | Inr stdout \<Rightarrow>
          let split = Split stdout TAB
          in if length split \<noteq> 2 then Some (InvalidOutput stdout)
             else let nodeTimes = Split (split ! 0) (CHR '' '');
                      nodesReady = Split (split ! 1) (CHR '' '')
                  in if length nodeTimes \<noteq> 4 then Some ExpectedFourNodes
                     else if allNodesReady trimSpace nodesReady then None
                     else (case statusChangeRecent trimSpace parseTime clk 0 nodeTimes False of
                             Inl err \<Rightarrow> Some err
                           | Inr recent \<Rightarrow>
                               if recent then askRedeploy answers
                               else Some NotReadyForOverAMinute))"

definition requiredContainersRunning :: "string list" where
  "requiredContainersRunning =
     [''sanic-worker'', ''sanic-worker2'', ''sanic-worker3'', ''sanic-control-plane'']"

definition checkCluster :: "(string \<Rightarrow> string) \<Rightarrow> (string \<Rightarrow> time option) \<Rightarrow> string + string list
    \<Rightarrow> string + string \<Rightarrow> (nat \<Rightarrow> time) \<Rightarrow> string list \<Rightarrow> clusterError option" where
  "checkCluster trimSpace parseTime clusterNodes kubectl clk answers =
     (case clusterNodes of
        Inl err \<Rightarrow> Some (ListFailed err)
      | Inr nodes \<Rightarrow>
          if length nodes = 0 then Some NoNodesRunning
          else if length nodes \<noteq> length requiredContainersRunning
          then Some (NodesRemovedOrCrashed (length nodes) (length requiredContainersRunning))
          else if \<exists>name \<in> set requiredContainersRunning. name \<notin> set nodes
          then Some SomeNodesNotRunning
          else checkClusterReady trimSpace parseTime kubectl clk answers)"

section \<open>Notions used to state the properties\<close>

text \<open>
  A state is well formed when no cursor is past the end of its file. The new logger is
  well formed and every operation keeps a state so (\<open>Log_effect\<close>, \<open>logStatus_effect\<close>).
\<close>

definition fileOk :: "osFile \<Rightarrow> bool" where
  "fileOk f = (pos f \<le> length (content f))"

definition wellFormed :: "flatfileLogger \<Rightarrow> bool" where
  "wellFormed st = (\<forall>service f. openFiles st service = Some f \<longrightarrow> pos f \<le> length (content f))"

text \<open>The file of a service as \<open>logFile\<close> hands it out when nothing fails.\<close>

definition fileOf :: "flatfileLogger \<Rightarrow> string \<Rightarrow> osFile" where
  "fileOf st service =
     (case openFiles st service of None \<Rightarrow> \<lparr>content = [], pos = 0\<rparr> | Some f \<Rightarrow> f)"

text \<open>
  What one status event does, named: the map after it, the permanent line it commits
  (none unless it signals completion) and the line the listeners are called with.
\<close>

definition newStatuses :: "(time \<Rightarrow> string) \<Rightarrow> string \<Rightarrow> VertexStatus \<Rightarrow> (string \<times> string) list
    \<Rightarrow> (string \<times> string) list" where
  "newStatuses fmtTime idt status m =
     (case Completed status of
        Some _ \<Rightarrow> AList.delete (ID status) m
      | None \<Rightarrow> AList.update (ID status)
                 (''['' @ fmtTime (Timestamp status) @ ''] '' @ statusText idt status) m)"

definition finalLine :: "(time \<Rightarrow> string) \<Rightarrow> string \<Rightarrow> VertexStatus \<Rightarrow> string" where
  "finalLine fmtTime idt status =
     (case Completed status of
        Some _ \<Rightarrow> ''['' @ fmtTime (Timestamp status) @ ''] '' @ statusText idt status @ [LF]
      | None \<Rightarrow> [])"

definition announced :: "string \<Rightarrow> VertexStatus \<Rightarrow> string list \<Rightarrow> string" where
  "announced idt status statuses =
     (if statuses = [] then statusText idt status else removeDate (last statuses)) @ [LF]"

text \<open>
  Inputs for the examples: a printer of instants, a new logger with given listeners and
  coming faults, and a status event.
\<close>

definition showTime :: "time \<Rightarrow> string" where
  "showTime t = dec (nat t)"

definition freshLogger :: "listener list \<Rightarrow> bool list \<Rightarrow> flatfileLogger" where
  "freshLogger ls fs = (NewFlatfileLogger ''logs'' False fs (\<lambda>i. 0))\<lparr>logLineListeners := ls\<rparr>"

definition progress :: "string \<Rightarrow> 64 word \<Rightarrow> 64 word \<Rightarrow> time \<Rightarrow> time option \<Rightarrow> VertexStatus" where
  "progress ident cur tot t fin =
     \<lparr>ID = ident, sVertex = ''v'', sName = ''n'', Total = tot, Current = cur, Timestamp = t,
      Completed = fin\<rparr>"

text \<open>
  The line \<open>Log\<close> commits for a message: the date in brackets, a space, the message
  without the carriage returns and line feeds at its two ends, and one line feed.
\<close>

definition entry :: "(time \<Rightarrow> string) \<Rightarrow> time \<Rightarrow> string \<Rightarrow> string" where
  "entry fmtTime t message = ''['' @ fmtTime t @ ''] '' @ Trim message [CR, LF] @ [LF]"

text \<open>
  The diagnostic lines of \<open>ProcessStatus\<close> in verbose mode, \<open>fmt.Sprintf\<close> with
  \<open>%q\<close> on strings that need no escaping.
\<close>

definition vertexDiagnostic :: "Vertex \<Rightarrow> string" where
  "vertexDiagnostic v =
     ''Vertex: '' @ [QUOTE] @ Name v @ [QUOTE] @ '',  '' @ [QUOTE] @ Error v @ [QUOTE]
       @ '',  '' @ [QUOTE] @ Digest v @ [QUOTE]"

definition logDiagnostic :: "VertexLog \<Rightarrow> string" where
  "logDiagnostic log =
     ''Log: '' @ [QUOTE] @ Data log @ [QUOTE] @ '',  '' @ [QUOTE] @ lVertex log @ [QUOTE]"

text \<open>
  A message without the carriage returns and line feeds at its end only.
\<close>

definition trailingNewlinesRemoved :: "string \<Rightarrow> string" where
  "trailingNewlinesRemoved s = rev (dropWhile (\<lambda>c. c = CR \<or> c = LF) (rev s))"

text \<open>
  The lines a sequence of events commits, in order: the line of each permanent-line
  event and the final line of each completion event.
\<close>

fun permanentLines :: "(time \<Rightarrow> string) \<Rightarrow> event list \<Rightarrow> string list" where
  "permanentLines fmtTime [] = []"
| "permanentLines fmtTime (PermanentLine when message # evs) =
     entry fmtTime when message # permanentLines fmtTime evs"
| "permanentLines fmtTime (StatusChurn status # evs) =
     (case idText (ID status) of
        Some idt \<Rightarrow> (if Completed status = None then [] else [finalLine fmtTime idt status])
      | None \<Rightarrow> []) @ permanentLines fmtTime evs"

text \<open>
  No status id of the sequence makes the slice of \<open>idText\<close> panic; and no date, message
  or id of the sequence holds a line feed, so that each committed line is one line.
\<close>

definition idsInRange :: "event list \<Rightarrow> bool" where
  "idsInRange evs = (\<forall>status. StatusChurn status \<in> set evs \<longrightarrow> idText (ID status) \<noteq> None)"

definition singleLines :: "(time \<Rightarrow> string) \<Rightarrow> event list \<Rightarrow> bool" where
  "singleLines fmtTime evs =
     ((\<forall>t. LF \<notin> set (fmtTime t)) \<and>
      (\<forall>t m. PermanentLine t m \<in> set evs \<longrightarrow> LF \<notin> set (Trim m [CR, LF])) \<and>
      (\<forall>status. StatusChurn status \<in> set evs \<longrightarrow> LF \<notin> set (ID status)))"

text \<open>
  Inputs for the examples of the cluster checks: \<open>strings.TrimSpace\<close> on ASCII text, a
  parser of instants that knows two dates, a clock ten seconds past the first of them,
  the four node names of the local cluster, and the output of \<open>kubectl\<close> for given
  transition times and readiness values.
\<close>

definition trimSpaceASCII :: "string \<Rightarrow> string" where
  "trimSpaceASCII s = Trim s [CHR '' '', TAB, LF, CR, CHR 0x0B, CHR 0x0C]"

definition parseExample :: "string \<Rightarrow> time option" where
  "parseExample s =
     (if s = ''2019-06-02T01:04:02Z'' then Some (1559437442 * 1000000000)
      else if s = ''2019-06-02T00:59:00Z'' then Some (1559437140 * 1000000000)
      else None)"

definition clockExample :: "nat \<Rightarrow> time" where
  "clockExample i = 1559437452 * 1000000000"

definition fourNodes :: "string list" where
  "fourNodes = [''sanic-control-plane'', ''sanic-worker'', ''sanic-worker2'', ''sanic-worker3'']"

definition kubectlOutput :: "string list \<Rightarrow> string list \<Rightarrow> string" where
  "kubectlOutput transitions readiness =
     concat (map (\<lambda>t. t @ '' '') (butlast transitions)) @ last transitions @ [TAB] @
     concat (map (\<lambda>r. r @ '' '') (butlast readiness)) @ last readiness"

definition fresh :: string where "fresh = ''2019-06-02T01:04:02Z''"
definition stale :: string where "stale = ''2019-06-02T00:59:00Z''"

section \<open>Properties of byte humanization and short ids\<close>

lemma logb_0 [simp]: "logb 0 = 0" by (simp add: logb.simps)
lemma logb_1 [simp]: "logb (Suc 0) = 0" by (simp add: logb.simps)
lemma logb_numeral [simp]:
  "logb (numeral k) = (if numeral k < (2::nat) then 0 else Suc (logb (numeral k div 2)))"
  by (rule logb.simps)
lemma dec_0 [simp]: "dec 0 = ''0''" by (simp add: dec.simps digit_def)
lemma dec_1 [simp]: "dec (Suc 0) = ''1''" by (simp add: dec.simps digit_def)
lemma dec_numeral [simp]:
  "dec (numeral k) = (if numeral k < (10::nat) then [digit (numeral k)]
     else dec (numeral k div 10) @ [digit (numeral k mod 10)])"
  by (rule dec.simps)

lemma logb_bounds: "0 < n \<Longrightarrow> 2 ^ logb n \<le> n \<and> n < 2 ^ Suc (logb n)"
proof (induction n rule: logb.induct)
  case (1 n)
  show ?case
  proof (cases "n < 2")
    case True
    with "1.prems" have "n = 1" by simp
    then show ?thesis by simp
  next
    case False
    then have pos: "0 < n div 2" by simp
    from "1.IH" [OF False pos] have lo: "2 ^ logb (n div 2) \<le> n div 2"
      and hi: "n div 2 < 2 ^ Suc (logb (n div 2))" by simp_all
    have eq: "logb n = Suc (logb (n div 2))" using False by (simp add: logb.simps [of n])
    from lo have "2 * 2 ^ logb (n div 2) \<le> n" by linarith
    moreover from hi have "n < 2 * 2 ^ Suc (logb (n div 2))" by linarith
    ultimately show ?thesis by (simp add: eq)
  qed
qed

lemma logb_le: assumes "0 < n" "n < 2 ^ m" shows "logb n < m"
proof -
  from logb_bounds [OF assms(1)] have "2 ^ logb n \<le> n" by simp
  with assms(2) have "(2::nat) ^ logb n < 2 ^ m" by linarith
  then show ?thesis by simp
qed

lemma logb_ge: assumes "2 ^ m \<le> n" shows "m \<le> logb n"
proof -
  have "0 < n" using assms by (metis less_le_trans zero_less_numeral zero_less_power)
  from logb_bounds [OF this] have "n < 2 ^ Suc (logb n)" by simp
  with assms have lt: "(2::nat) ^ m < 2 ^ Suc (logb n)" by linarith
  have "m < Suc (logb n)" by (rule power_less_imp_less_exp [of 2], simp, fact lt)
  then show ?thesis by simp
qed


lemma round53_bounds:
  assumes a53: "2 ^ 53 \<le> a" and a63: "a \<le> 2 ^ 63"
  shows "1 \<le> round53 a \<and> round53 a \<le> 2 ^ 63"
proof -
  define s where "s = logb a - 52"
  define q where "q = a div 2 ^ s"
  define r where "r = a mod 2 ^ s"
  define q' where "q' = (if 2 * r > 2 ^ s \<or> (2 * r = 2 ^ s \<and> odd q) then q + 1 else q)"
  have rd: "round53 a = q' * 2 ^ s"
    unfolding round53_def Let_def q'_def r_def q_def s_def by (rule refl)
  have apos: "0 < a" using a53 by (metis less_le_trans zero_less_numeral zero_less_power)
  have l53: "53 \<le> logb a" using a53 by (rule logb_ge)
  have l63: "logb a \<le> 63"
  proof -
    have "a < 2 ^ 64" using a63 by simp
    from logb_le [OF apos this] show ?thesis by simp
  qed
  have s1: "logb a = s + 52" using l53 by (simp add: s_def)
  from logb_bounds [OF apos] have lo: "2 ^ (s + 52) \<le> a" and hi: "a < 2 ^ (s + 53)"
    by (simp_all add: s1 add.commute)
  have qlo: "2 ^ 52 \<le> q"
  proof -
    have "2 ^ 52 * 2 ^ s \<le> a" using lo by (simp add: power_add mult.commute)
    then show ?thesis unfolding q_def by (simp add: less_eq_div_iff_mult_less_eq)
  qed
  have qhi: "q < 2 ^ 53"
  proof -
    have "a < 2 ^ 53 * 2 ^ s" using hi by (simp add: power_add mult.commute)
    then show ?thesis unfolding q_def by (simp add: less_mult_imp_div_less)
  qed
  have q'lo: "q \<le> q'" and q'hi: "q' \<le> q + 1" by (simp_all add: q'_def)
  have lower: "1 \<le> q' * 2 ^ s"
  proof -
    have "0 < q'" using qlo q'lo by (metis less_le_trans zero_less_numeral zero_less_power)
    then show ?thesis by (simp add: Suc_le_eq)
  qed
  have upper: "q' * 2 ^ s \<le> 2 ^ 63"
  proof (cases "s = 11")
    case True
    then have "a = 2 ^ 63" using lo a63 by simp
    then have "q = 2 ^ 52" "r = 0" by (simp_all add: q_def r_def True)
    then have "q' = 2 ^ 52" by (simp add: q'_def)
    then show ?thesis by (simp add: True)
  next
    case False
    then have "s \<le> 10" using l63 s1 by simp
    have "q' \<le> 2 ^ 53" using qhi q'hi by simp
    then have "q' * 2 ^ s \<le> 2 ^ 53 * 2 ^ s" by (rule mult_le_mono1)
    also have "\<dots> = 2 ^ (53 + s)" by (simp add: power_add)
    also have "\<dots> \<le> 2 ^ 63" using \<open>s \<le> 10\<close> by (intro power_increasing) simp_all
    finally show ?thesis .
  qed
  show ?thesis using lower upper by (simp only: rd)
qed

lemma float64_bounds:
  assumes "i \<noteq> 0" "\<bar>i\<bar> \<le> 2 ^ 63"
  shows "1 \<le> \<bar>float64 i\<bar> \<and> \<bar>float64 i\<bar> \<le> 2 ^ 63"
proof (cases "nat \<bar>i\<bar> < 2 ^ 53")
  case True
  then show ?thesis using assms by (simp add: float64_def)
next
  case False
  then have a53: "2 ^ 53 \<le> nat \<bar>i\<bar>" by simp
  have a63: "nat \<bar>i\<bar> \<le> 2 ^ 63" using assms(2) by (simp add: nat_le_iff)
  have abs: "\<bar>float64 i\<bar> = int (round53 (nat \<bar>i\<bar>))"
    using False assms(1) by (simp add: float64_def abs_mult)
  from round53_bounds [OF a53 a63]
  have "1 \<le> int (round53 (nat \<bar>i\<bar>))" and "int (round53 (nat \<bar>i\<bar>)) \<le> int (2 ^ 63)"
    by (simp_all only: of_nat_le_iff of_nat_1 [symmetric, where ?'a = int])
  then show ?thesis by (simp add: abs)
qed

lemma sint64_range: "\<bar>sint (w :: 64 word)\<bar> \<le> 2 ^ 63"
proof -
  have "- (2 ^ 63) \<le> sint w" "sint w < 2 ^ 63"
    using sint_ge [of w] sint_lt [of w] by simp_all
  then show ?thesis by simp
qed

lemma unit_index:
  assumes "1 \<le> x" "x \<le> (2::nat) ^ 63"
  shows "logb x div 10 < 7 \<and> 1024 ^ (logb x div 10) \<le> x \<and> x < 1024 ^ Suc (logb x div 10)"
proof -
  define e where "e = logb x"
  define k where "k = e div 10"
  have xpos: "0 < x" using assms(1) by simp
  from logb_bounds [OF xpos] have lo: "2 ^ e \<le> x" and hi: "x < 2 ^ Suc e" by (simp_all add: e_def)
  have "x < 2 ^ 64" using assms(2) by simp
  from logb_le [OF xpos this] have e63: "e < 64" by (simp add: e_def)
  then have k7: "k < 7" by (simp add: k_def)
  have p: "(1024::nat) ^ n = 2 ^ (10 * n)" for n
    by (simp add: power_mult)
  have "(2::nat) ^ (10 * k) \<le> 2 ^ e" by (rule power_increasing) (simp_all add: k_def)
  with lo have c1: "1024 ^ k \<le> x" by (simp only: p)
  have "(2::nat) ^ Suc e \<le> 2 ^ (10 * Suc k)" by (rule power_increasing) (simp_all add: k_def)
  with hi have c2: "x < 1024 ^ Suc k" by (simp only: p)
  show ?thesis using k7 c1 c2 by (simp only: k_def e_def) 
qed

lemma humanReadableBytes_nonzero:
  assumes "bytes \<noteq> 0"
  shows "\<exists>k<7. 1024 ^ k \<le> \<bar>float64 (sint bytes)\<bar> \<and> \<bar>float64 (sint bytes)\<bar> < 1024 ^ Suc k \<and>
           humanReadableBytes bytes = fmt2f (float64 (sint bytes)) (1024 ^ k) @ suf ! k"
proof -
  define x where "x = float64 (sint bytes)"
  define k where "k = logb (nat \<bar>x\<bar>) div 10"
  have nz: "sint bytes \<noteq> 0" using assms by (simp add: signed_eq_0_iff)
  from float64_bounds [OF nz sint64_range] have b: "1 \<le> \<bar>x\<bar>" "\<bar>x\<bar> \<le> 2 ^ 63"
    by (simp_all add: x_def)
  have n1: "1 \<le> nat \<bar>x\<bar>" using b(1) by simp
  have n2: "nat \<bar>x\<bar> \<le> 2 ^ 63" using b(2) by (simp add: nat_le_iff)
  from unit_index [OF n1 n2] have k7: "k < 7" and lo: "1024 ^ k \<le> nat \<bar>x\<bar>"
    and hi: "nat \<bar>x\<bar> < 1024 ^ Suc k" by (simp_all only: k_def)
  have lo': "1024 ^ k \<le> \<bar>x\<bar>"
  proof -
    from lo have "int (1024 ^ k) \<le> int (nat \<bar>x\<bar>)" by (simp only: of_nat_le_iff)
    then show ?thesis by simp
  qed
  have hi': "\<bar>x\<bar> < 1024 ^ Suc k"
  proof -
    from hi have "int (nat \<bar>x\<bar>) < int (1024 ^ Suc k)" by (simp only: of_nat_less_iff)
    then show ?thesis by simp
  qed
  have "humanReadableBytes bytes = fmt2f x (1024 ^ k) @ suf ! k"
    using assms by (simp add: humanReadableBytes_def Let_def x_def k_def)
  with k7 lo' hi' show ?thesis unfolding x_def by blast
qed

lemma hundredths_nearest:
  assumes "0 < d"
  shows "2 * (hundredths x d * d) \<le> 200 * nat \<bar>x\<bar> + d \<and> 200 * nat \<bar>x\<bar> \<le> 2 * (hundredths x d * d) + d"
proof -
  define n where "n = nat \<bar>x\<bar> * 100"
  define Q where "Q = n div d * d"
  define R where "R = n mod d"
  have eq: "n = Q + R" by (simp add: Q_def R_def)
  have lt: "R < d" using assms by (simp add: R_def)
  have h: "hundredths x d = (if 2 * R > d \<or> (2 * R = d \<and> odd (n div d)) then n div d + 1 else n div d)"
    by (simp add: hundredths_def Let_def n_def R_def)
  have n2: "200 * nat \<bar>x\<bar> = 2 * n" by (simp add: n_def)
  show ?thesis
  proof (cases "2 * R > d \<or> (2 * R = d \<and> odd (n div d))")
    case True
    then have "hundredths x d = n div d + 1" unfolding h by (simp only: if_True)
    then have hv: "hundredths x d * d = Q + d" by (simp add: Q_def)
    from True have "d \<le> 2 * R" by auto
    then show ?thesis using eq lt unfolding n2 hv by auto
  next
    case False
    then have "hundredths x d = n div d" unfolding h by (simp only: if_False)
    then have hv: "hundredths x d * d = Q" by (simp add: Q_def)
    from False have "2 * R \<le> d" by auto
    then show ?thesis using eq lt unfolding n2 hv by auto
  qed
qed



text \<open>
  Claim C7. For a status id that starts with \<open>sha256:\<close> and is long enough to hold the
  slice (19 bytes; a content hash has 71), the short id is the 12 bytes at offset 7, that
  is, the first 12 bytes after the prefix; an id without the prefix is used unchanged.
\<close>

theorem shortID_derivation:
  "(HasPrefix ident ''sha256:'' \<and> 19 \<le> length ident \<longrightarrow>
      idText ident = Some (take 12 (drop 7 ident)) \<and>
      length (take 12 (drop 7 ident)) = 12 \<and>
      ident = ''sha256:'' @ take 12 (drop 7 ident) @ drop 19 ident) \<and>
   (\<not> HasPrefix ident ''sha256:'' \<longrightarrow> idText ident = Some ident)"
proof -
  have "ident = ''sha256:'' @ take 12 (drop 7 ident) @ drop 19 ident"
    if p: "HasPrefix ident ''sha256:''"
  proof -
    have l: "length ''sha256:'' = 7" by simp
    have a: "take 7 ident = ''sha256:''" using p unfolding HasPrefix_def l .
    have b: "drop 12 (drop 7 ident) = drop 19 ident" by simp
    have "ident = take 7 ident @ (take 12 (drop 7 ident) @ drop 12 (drop 7 ident))"
      by (simp only: append_take_drop_id)
    then show ?thesis by (simp only: a b)
  qed
  then show ?thesis by (auto simp: idText_def slice_def)
qed

text \<open>The statement at a prefixed id and at the id \<open>plain-name\<close>.\<close>

theorem shortID_derivation_witness:
  "HasPrefix ''sha256:0123456789abcdef0123'' ''sha256:'' \<and>
   19 \<le> length ''sha256:0123456789abcdef0123'' \<and>
   idText ''sha256:0123456789abcdef0123'' = Some ''0123456789ab'' \<and>
   \<not> HasPrefix ''plain-name'' ''sha256:'' \<and> idText ''plain-name'' = Some ''plain-name''"
  using shortID_derivation [of "''sha256:0123456789abcdef0123''"]
    shortID_derivation [of "''plain-name''"]
  by (simp add: HasPrefix_def)

section \<open>Properties of the logger\<close>

lemma next_fault_none: "faults st = [] \<Longrightarrow> next_fault st = (False, st)"
  by (simp add: next_fault_def)

lemma logFile_open: "openFiles st service = Some f \<Longrightarrow> logFile st service = (Inr f, st)"
  by (simp add: logFile_def)

lemma logFile_ok:
  assumes "faults st = []"
  shows "logFile st service = (Inr (fileOf st service), store st service (fileOf st service))"
proof (cases "openFiles st service")
  case None
  then show ?thesis using assms
    by (simp add: logFile_def next_fault_def fileOf_def store_def)
next
  case (Some f)
  then have "(openFiles st)(service \<mapsto> f) = openFiles st" by (simp add: map_upd_triv)
  then show ?thesis using Some by (simp add: logFile_def fileOf_def store_def)
qed

lemma WriteString_ok: "faults st = [] \<Longrightarrow> WriteString st f s = (False, write_at f s, st)"
  by (simp add: WriteString_def next_fault_def)

lemma Seek_ok:
  "faults st = [] \<Longrightarrow> n \<le> pos f \<Longrightarrow> Seek st f (- int n) = (False, f\<lparr>pos := pos f - n\<rparr>, st)"
  by (simp add: Seek_def next_fault_def nat_diff_distrib' of_nat_diff)

lemma pos_write_at [simp]: "pos (write_at f s) = pos f + length s"
  by (simp add: write_at_def)

lemma write_at_empty [simp]: "write_at f [] = f"
  by (simp add: write_at_def)

lemma write_at_wf:
  "pos f \<le> length (content f) \<Longrightarrow>
     content (write_at f s) = take (pos f) (content f) @ s @ drop (pos f + length s) (content f)"
  by (simp add: write_at_def)

lemma Log_ok:
  assumes "faults st = []"
  shows "Log fmtTime st service when message =
           (Ok, notify (store st service
                  (write_at (fileOf st service)
                     (''['' @ fmtTime when @ ''] '' @ Trim message [CR, LF] @ [LF])))
                  service (Trim message [CR, LF] @ [LF]))"
  using assms
  by (simp add: Log_def logFile_ok WriteString_ok store_def Let_def)

lemma logStatus_ok:
  assumes nf: "faults st = []" and idt: "idText (ID status) = Some idt"
  shows "logStatus fmtTime st service status =
           (let m = newStatuses fmtTime idt status (currVertexStatuses st);
                f1 = write_at (fileOf st service) (finalLine fmtTime idt status);
                f2 = write_at f1 (concat (statusLines m))
            in (Ok, notify (store (st\<lparr>currVertexStatuses := m\<rparr>) service (f2\<lparr>pos := pos f1\<rparr>))
                      service (announced idt status (statusLines m))))"
proof (cases "Completed status")
  case None
  show ?thesis
    using nf idt None
    by (simp add: logStatus_def logFile_ok WriteString_ok Seek_def next_fault_def store_def
        notify_def Let_def newStatuses_def finalLine_def announced_def)
next
  case (Some t)
  show ?thesis
    using nf idt Some
    by (simp add: logStatus_def logFile_ok WriteString_ok Seek_def next_fault_def store_def
        notify_def Let_def newStatuses_def finalLine_def announced_def nat_add_distrib eval_nat_numeral)
qed



lemma wellFormed_iff: "wellFormed st = (\<forall>service f. openFiles st service = Some f \<longrightarrow> fileOk f)"
  by (simp add: wellFormed_def fileOk_def)

lemma fileOk_fileOf: "wellFormed st \<Longrightarrow> fileOk (fileOf st service)"
  by (simp add: wellFormed_iff fileOf_def fileOk_def split: option.splits)

lemma permanent_fileOf:
  "permanent st service = take (pos (fileOf st service)) (content (fileOf st service))"
  by (simp add: permanent_def fileOf_def split: option.splits)

lemma tail_fileOf:
  "tail st service = drop (pos (fileOf st service)) (content (fileOf st service))"
  by (simp add: tail_def fileOf_def split: option.splits)

lemma fileOk_write_at: "fileOk f \<Longrightarrow> fileOk (write_at f s)"
  by (simp add: fileOk_def write_at_def)

lemma take_write_at:
  "fileOk f \<Longrightarrow> take (pos f + length s) (content (write_at f s)) = take (pos f) (content f) @ s"
  by (simp add: fileOk_def write_at_def)

lemma drop_write_at:
  "fileOk f \<Longrightarrow> drop (pos f + length s) (content (write_at f s)) = drop (length s) (drop (pos f) (content f))"
  by (simp add: fileOk_def write_at_def add.commute)

lemma take_before_write_at:
  "fileOk f \<Longrightarrow> take (pos f) (content (write_at f s)) = take (pos f) (content f)"
  by (simp add: fileOk_def write_at_def)

lemma drop_before_write_at:
  "fileOk f \<Longrightarrow> drop (pos f) (content (write_at f s)) = s @ drop (length s) (drop (pos f) (content f))"
  by (simp add: fileOk_def write_at_def add.commute)

lemma fileOk_seek_back: "fileOk f \<Longrightarrow> fileOk ((write_at f s)\<lparr>pos := pos f\<rparr>)"
  by (simp add: fileOk_def write_at_def)

text \<open>Fields of a state after \<open>store\<close> and \<open>notify\<close>.\<close>

lemma after_store_notify [simp]:
  "faults (notify (store st service f) service line) = faults st"
  "currVertexStatuses (notify (store st service f) service line) = currVertexStatuses st"
  "logLineListeners (notify (store st service f) service line) = logLineListeners st"
  "verbose (notify (store st service f) service line) = verbose st"
  "ticks (notify (store st service f) service line) = ticks st"
  "clock (notify (store st service f) service line) = clock st"
  "calls (notify (store st service f) service line) =
     calls st @ map (\<lambda>listener. (listener, service, line)) (logLineListeners st)"
  "openFiles (notify (store st service f) service line) = (openFiles st)(service \<mapsto> f)"
  by (simp_all add: store_def notify_def)

lemma fileOf_after [simp]: "fileOf (notify (store st service f) service line) service = f"
  by (simp add: fileOf_def)

lemma wellFormed_after: "wellFormed st \<Longrightarrow> fileOk f \<Longrightarrow> wellFormed (notify (store st service f) service line)"
  by (simp add: wellFormed_iff)

lemma Log_effect:
  fixes fmtTime :: "time \<Rightarrow> string" and st :: flatfileLogger and service message :: string
    and "when" :: time
  assumes nf: "faults st = []" and wf: "wellFormed st"
  defines "st' \<equiv> snd (Log fmtTime st service when message)"
  shows "fst (Log fmtTime st service when message) = Ok"
    and "faults st' = []" and "wellFormed st'"
    and "permanent st' service =
           permanent st service @ ''['' @ fmtTime when @ ''] '' @ Trim message [CR, LF] @ [LF]"
    and "currVertexStatuses st' = currVertexStatuses st"
    and "logLineListeners st' = logLineListeners st"
    and "verbose st' = verbose st" and "ticks st' = ticks st" and "clock st' = clock st"
    and "calls st' = calls st @
           map (\<lambda>listener. (listener, service, Trim message [CR, LF] @ [LF])) (logLineListeners st)"
proof -
  define line where "line = ''['' @ fmtTime when @ ''] '' @ Trim message [CR, LF] @ [LF]"
  define f where "f = write_at (fileOf st service) line"
  have eq: "Log fmtTime st service when message =
              (Ok, notify (store st service f) service (Trim message [CR, LF] @ [LF]))"
    unfolding f_def line_def by (rule Log_ok [OF nf])
  have st': "st' = notify (store st service f) service (Trim message [CR, LF] @ [LF])"
    by (simp add: st'_def eq)
  have ok0: "fileOk (fileOf st service)" by (rule fileOk_fileOf [OF wf])
  have ok: "fileOk f" unfolding f_def by (rule fileOk_write_at [OF ok0])
  show "fst (Log fmtTime st service when message) = Ok" by (simp add: eq)
  show "faults st' = []" by (simp add: st' nf)
  show "wellFormed st'" unfolding st' by (rule wellFormed_after [OF wf ok])
  have "permanent st' service = take (pos f) (content f)"
    by (simp add: permanent_fileOf st')
  also have "\<dots> = take (pos (fileOf st service)) (content (fileOf st service)) @ line"
    unfolding f_def using take_write_at [OF ok0, of line] by simp
  finally show "permanent st' service =
           permanent st service @ ''['' @ fmtTime when @ ''] '' @ Trim message [CR, LF] @ [LF]"
    by (simp only: permanent_fileOf line_def)
  show "currVertexStatuses st' = currVertexStatuses st" by (simp add: st')
  show "logLineListeners st' = logLineListeners st" by (simp add: st')
  show "verbose st' = verbose st" by (simp add: st')
  show "ticks st' = ticks st" by (simp add: st')
  show "clock st' = clock st" by (simp add: st')
  show "calls st' = calls st @
           map (\<lambda>listener. (listener, service, Trim message [CR, LF] @ [LF])) (logLineListeners st)"
    by (simp add: st')
qed

lemma logStatus_effect:
  fixes fmtTime :: "time \<Rightarrow> string" and st :: flatfileLogger and service idt :: string
    and status :: VertexStatus
  assumes nf: "faults st = []" and wf: "wellFormed st" and idt: "idText (ID status) = Some idt"
  defines "st' \<equiv> snd (logStatus fmtTime st service status)"
  shows "fst (logStatus fmtTime st service status) = Ok"
    and "faults st' = []" and "wellFormed st'"
    and "currVertexStatuses st' = newStatuses fmtTime idt status (currVertexStatuses st)"
    and "permanent st' service = permanent st service @ finalLine fmtTime idt status"
    and "tail st' service =
           block st' @ drop (length (block st'))
                         (drop (length (finalLine fmtTime idt status)) (tail st service))"
    and "logLineListeners st' = logLineListeners st"
    and "verbose st' = verbose st" and "ticks st' = ticks st" and "clock st' = clock st"
    and "calls st' = calls st @
           map (\<lambda>listener. (listener, service, announced idt status (statusLines (currVertexStatuses st'))))
             (logLineListeners st)"
proof -
  define m where "m = newStatuses fmtTime idt status (currVertexStatuses st)"
  define f1 where "f1 = write_at (fileOf st service) (finalLine fmtTime idt status)"
  define f2 where "f2 = write_at f1 (concat (statusLines m))"
  define g where "g = f2\<lparr>pos := pos f1\<rparr>"
  have eq: "logStatus fmtTime st service status =
      (Ok, notify (store (st\<lparr>currVertexStatuses := m\<rparr>) service g)
             service (announced idt status (statusLines m)))"
    using logStatus_ok [OF nf idt, of fmtTime service]
    by (simp only: Let_def m_def f1_def f2_def g_def)
  have st': "st' = notify (store (st\<lparr>currVertexStatuses := m\<rparr>) service g)
             service (announced idt status (statusLines m))"
    by (simp add: st'_def eq)
  have ok0: "fileOk (fileOf st service)" by (rule fileOk_fileOf [OF wf])
  have ok1: "fileOk f1" unfolding f1_def by (rule fileOk_write_at [OF ok0])
  have okg: "fileOk g" unfolding g_def f2_def by (rule fileOk_seek_back [OF ok1])
  have wfm: "wellFormed (st\<lparr>currVertexStatuses := m\<rparr>)" using wf by (simp add: wellFormed_def)
  have cm: "currVertexStatuses st' = m" by (simp add: st')
  have bl: "block st' = concat (statusLines m)" by (simp add: block_def cm)
  show "fst (logStatus fmtTime st service status) = Ok" by (simp add: eq)
  show "faults st' = []" by (simp add: st' nf)
  show "wellFormed st'" unfolding st' by (rule wellFormed_after [OF wfm okg])
  show "currVertexStatuses st' = newStatuses fmtTime idt status (currVertexStatuses st)"
    by (simp add: cm m_def)
  have pg: "pos g = pos f1" and cg: "content g = content f2" by (simp_all add: g_def)
  have p1: "take (pos f1) (content f1) = permanent st service @ finalLine fmtTime idt status"
    unfolding f1_def permanent_fileOf using take_write_at [OF ok0, of "finalLine fmtTime idt status"]
    by simp
  have d1: "drop (pos f1) (content f1) = drop (length (finalLine fmtTime idt status)) (tail st service)"
    unfolding f1_def tail_fileOf using drop_write_at [OF ok0, of "finalLine fmtTime idt status"]
    by simp
  have "permanent st' service = take (pos g) (content g)"
    by (simp add: permanent_fileOf st')
  also have "\<dots> = take (pos f1) (content f1)"
    unfolding pg cg f2_def by (rule take_before_write_at [OF ok1])
  finally show "permanent st' service = permanent st service @ finalLine fmtTime idt status"
    by (simp only: p1)
  have "tail st' service = drop (pos g) (content g)"
    by (simp add: tail_fileOf st')
  also have "\<dots> = concat (statusLines m) @ drop (length (concat (statusLines m))) (drop (pos f1) (content f1))"
    unfolding pg cg f2_def by (rule drop_before_write_at [OF ok1])
  finally show "tail st' service =
           block st' @ drop (length (block st'))
                         (drop (length (finalLine fmtTime idt status)) (tail st service))"
    by (simp only: bl d1)
  show "logLineListeners st' = logLineListeners st" by (simp add: st')
  show "verbose st' = verbose st" by (simp add: st')
  show "ticks st' = ticks st" by (simp add: st')
  show "clock st' = clock st" by (simp add: st')
  show "calls st' = calls st @
           map (\<lambda>listener. (listener, service, announced idt status (statusLines (currVertexStatuses st'))))
             (logLineListeners st)"
    unfolding cm by (simp add: st')
qed



lemma idText_None_iff: "idText ident = None \<longleftrightarrow> HasPrefix ident ''sha256:'' \<and> length ident < 19"
  by (auto simp: idText_def slice_def)

text \<open>
  Claim C10. The short id is defined exactly when the id does not start with \<open>sha256:\<close>
  or has at least 19 bytes. A status event whose id has the prefix and fewer than 19 bytes
  makes \<open>logStatus\<close> panic, as soon as it has its log file (if the file cannot be opened,
  that error is returned before the slice is reached).
\<close>

theorem shortID_slice_panics:
  "(idText ident = None \<longleftrightarrow> HasPrefix ident ''sha256:'' \<and> length ident < 19) \<and>
   (HasPrefix (ID status) ''sha256:'' \<and> length (ID status) < 19 \<longrightarrow>
      fst (logStatus fmtTime st service status) =
        (case fst (logFile st service) of Inl err \<Rightarrow> Err err | Inr f \<Rightarrow> Panic))"
proof -
  have "fst (logStatus fmtTime st service status) =
        (case fst (logFile st service) of Inl err \<Rightarrow> Err err | Inr f \<Rightarrow> Panic)"
    if "idText (ID status) = None"
    using that by (simp add: logStatus_def split: prod.splits sum.splits)
  then have b: "HasPrefix (ID status) ''sha256:'' \<and> length (ID status) < 19 \<longrightarrow>
      fst (logStatus fmtTime st service status) =
        (case fst (logFile st service) of Inl err \<Rightarrow> Err err | Inr f \<Rightarrow> Panic)"
    by (simp only: idText_None_iff [symmetric]) blast
  show ?thesis by (rule conjI [OF idText_None_iff b])
qed

text \<open>The statement at the id \<open>sha256:abc\<close> on a new logger.\<close>

theorem shortID_slice_panics_witness:
  "HasPrefix ''sha256:abc'' ''sha256:'' \<and> length ''sha256:abc'' < 19 \<and>
   fst (logStatus (\<lambda>t. ''T'') (NewFlatfileLogger ''logs'' False [] (\<lambda>i. 0)) ''svc''
          \<lparr>ID = ''sha256:abc'', sVertex = ''v'', sName = ''n'', Total = 100, Current = 50,
           Timestamp = 0, Completed = None\<rparr>) = Panic"
proof -
  have h: "HasPrefix ''sha256:abc'' ''sha256:'' \<and> length ''sha256:abc'' < 19"
    by (simp add: HasPrefix_def)
  have lf: "fst (logFile (NewFlatfileLogger ''logs'' False [] (\<lambda>i. 0)) ''svc'')
              = Inr \<lparr>content = [], pos = 0\<rparr>"
    by (simp add: logFile_def NewFlatfileLogger_def next_fault_def)
  from shortID_slice_panics [of "''sha256:abc''"
      "\<lparr>ID = ''sha256:abc'', sVertex = ''v'', sName = ''n'', Total = 100, Current = 50,
           Timestamp = 0, Completed = None\<rparr>" "\<lambda>t. ''T''"
      "NewFlatfileLogger ''logs'' False [] (\<lambda>i. 0)" "''svc''"] h lf
  show ?thesis by simp
qed

lemma set_statusLines: "set (statusLines m) = (\<lambda>(k, s). s @ [LF]) ` set m"
  by (simp add: statusLines_def)

lemma statusLines_sorted: "sorted (map removeDate (statusLines m))"
  by (simp add: statusLines_def)

lemma last_is_greatest:
  assumes "sorted (map f xs)" "x \<in> set xs"
  shows "f x \<le> f (last xs)"
proof -
  from assms(2) obtain i where i: "i < length xs" "xs ! i = x" by (auto simp: in_set_conv_nth)
  then have ne: "xs \<noteq> []" by auto
  have "map f xs ! i \<le> map f xs ! (length xs - 1)"
    using assms(1) i(1) by (intro sorted_nth_mono) simp_all
  then show ?thesis using i ne by (simp add: last_conv_nth)
qed

text \<open>
  What one status event does to the status map and to the permanent region when no
  system call fails. An event that signals completion deletes the entry of its id and
  appends one line to the permanent region, each time it is processed; any other event
  upserts the entry of its id and appends nothing. The entries of all other ids stay as
  they were. Nothing is said here of the tail of the file.
\<close>

lemma logStatus_map_effect:
  assumes "faults st = []" and "wellFormed st" and "idText (ID status) = Some idt"
  shows "fst (logStatus fmtTime st service status) = Ok \<and>
    (Completed status \<noteq> None \<longrightarrow>
       currVertexStatuses (snd (logStatus fmtTime st service status)) =
         AList.delete (ID status) (currVertexStatuses st) \<and>
       map_of (currVertexStatuses (snd (logStatus fmtTime st service status))) (ID status) = None \<and>
       ID status \<notin> fst ` set (currVertexStatuses (snd (logStatus fmtTime st service status))) \<and>
       permanent (snd (logStatus fmtTime st service status)) service =
         permanent st service @
           ''['' @ fmtTime (Timestamp status) @ ''] '' @ statusText idt status @ [LF]) \<and>
    (Completed status = None \<longrightarrow>
       currVertexStatuses (snd (logStatus fmtTime st service status)) =
         AList.update (ID status)
           (''['' @ fmtTime (Timestamp status) @ ''] '' @ statusText idt status)
           (currVertexStatuses st) \<and>
       map_of (currVertexStatuses (snd (logStatus fmtTime st service status))) (ID status) =
         Some (''['' @ fmtTime (Timestamp status) @ ''] '' @ statusText idt status) \<and>
       (''['' @ fmtTime (Timestamp status) @ ''] '' @ statusText idt status @ [LF])
         \<in> set (statusLines (currVertexStatuses (snd (logStatus fmtTime st service status)))) \<and>
       permanent (snd (logStatus fmtTime st service status)) service = permanent st service) \<and>
    (\<forall>k. k \<noteq> ID status \<longrightarrow>
       map_of (currVertexStatuses (snd (logStatus fmtTime st service status))) k =
         map_of (currVertexStatuses st) k) \<and>
    block (snd (logStatus fmtTime st service status)) =
      concat (statusLines (currVertexStatuses (snd (logStatus fmtTime st service status)))) \<and>
    set (statusLines (currVertexStatuses (snd (logStatus fmtTime st service status)))) =
      (\<lambda>(k, s). s @ [LF]) ` set (currVertexStatuses (snd (logStatus fmtTime st service status)))"
proof -
  define st' where "st' = snd (logStatus fmtTime st service status)"
  define line where "line = ''['' @ fmtTime (Timestamp status) @ ''] '' @ statusText idt status"
  note eff = logStatus_effect [OF assms, of fmtTime service]
  have ok: "fst (logStatus fmtTime st service status) = Ok" by (rule eff(1))
  have m: "currVertexStatuses st' = newStatuses fmtTime idt status (currVertexStatuses st)"
    unfolding st'_def by (rule eff(4))
  have p: "permanent st' service = permanent st service @ finalLine fmtTime idt status"
    unfolding st'_def by (rule eff(5))
  have fin: "currVertexStatuses st' = AList.delete (ID status) (currVertexStatuses st) \<and>
       map_of (currVertexStatuses st') (ID status) = None \<and>
       ID status \<notin> fst ` set (currVertexStatuses st') \<and>
       permanent st' service = permanent st service @ line @ [LF]"
    if "Completed status \<noteq> None"
  proof -
    from that obtain t where t: "Completed status = Some t" by auto
    have m': "currVertexStatuses st' = AList.delete (ID status) (currVertexStatuses st)"
      by (simp add: m newStatuses_def t)
    have a: "map_of (currVertexStatuses st') (ID status) = None"
      by (simp add: m' AList.delete_conv')
    have b: "ID status \<notin> fst ` set (currVertexStatuses st')"
      unfolding m' by (rule AList.delete_notin_dom)
    have c: "permanent st' service = permanent st service @ line @ [LF]"
      by (simp add: p finalLine_def t line_def)
    show ?thesis using m' a b c by blast
  qed
  have upsert: "currVertexStatuses st' = AList.update (ID status) line (currVertexStatuses st) \<and>
       map_of (currVertexStatuses st') (ID status) = Some line \<and>
       (line @ [LF]) \<in> set (statusLines (currVertexStatuses st')) \<and>
       permanent st' service = permanent st service"
    if n: "Completed status = None"
  proof -
    have m': "currVertexStatuses st' = AList.update (ID status) line (currVertexStatuses st)"
      by (simp add: m newStatuses_def n line_def)
    have a: "map_of (currVertexStatuses st') (ID status) = Some line"
      by (simp add: m' AList.update_conv')
    then have "(ID status, line) \<in> set (currVertexStatuses st')" by (rule map_of_SomeD)
    then have b: "(line @ [LF]) \<in> set (statusLines (currVertexStatuses st'))"
      unfolding set_statusLines by force
    have c: "permanent st' service = permanent st service"
      by (simp add: p finalLine_def n)
    show ?thesis using m' a b c by blast
  qed
  have others: "map_of (currVertexStatuses st') k = map_of (currVertexStatuses st) k"
    if "k \<noteq> ID status" for k
    using that by (simp add: m newStatuses_def AList.update_conv' AList.delete_conv' split: option.splits)
  have bl: "block st' = concat (statusLines (currVertexStatuses st'))" by (simp add: block_def)
  show ?thesis
    using ok fin upsert others bl set_statusLines [of "currVertexStatuses st'"]
    unfolding st'_def line_def by (simp only: append_assoc) blast
qed

lemma next_fault_keeps:
  assumes "next_fault st = (b, st')"
  shows "calls st' = calls st" and "logLineListeners st' = logLineListeners st"
    and "currVertexStatuses st' = currVertexStatuses st" and "openFiles st' = openFiles st"
  using assms by (auto simp: next_fault_def split: list.splits)

lemma logFile_keeps:
  assumes "logFile st service = (r, st')"
  shows "calls st' = calls st" and "logLineListeners st' = logLineListeners st"
    and "currVertexStatuses st' = currVertexStatuses st"
  using assms
  by (auto simp: logFile_def next_fault_def split: option.splits list.splits bool.splits)

lemma WriteString_keeps:
  assumes "WriteString st f s = (failed, f', st')"
  shows "calls st' = calls st" and "logLineListeners st' = logLineListeners st"
    and "currVertexStatuses st' = currVertexStatuses st"
  using assms by (auto simp: WriteString_def next_fault_def split: list.splits bool.splits)

lemma Seek_keeps:
  assumes "Seek st f off = (failed, f', st')"
  shows "calls st' = calls st" and "logLineListeners st' = logLineListeners st"
    and "currVertexStatuses st' = currVertexStatuses st"
  using assms
  by (auto simp: Seek_def next_fault_def split: list.splits bool.splits if_splits)

lemma Log_calls:
  "calls (snd (Log fmtTime st service when message)) =
     (case fst (logFile st service) of
        Inl err \<Rightarrow> calls st
      | Inr f \<Rightarrow> calls st @ map (\<lambda>listener. (listener, service, Trim message [CR, LF] @ [LF]))
                              (logLineListeners st))"
proof (cases "logFile st service")
  case (Pair r st1)
  have k: "calls st1 = calls st" "logLineListeners st1 = logLineListeners st"
    using logFile_keeps [OF Pair] by simp_all
  show ?thesis
  proof (cases r)
    case (Inl err)
    then show ?thesis using Pair k by (simp add: Log_def)
  next
    case (Inr f)
    obtain failed f1 st2 where w: "WriteString st1 f
        (''['' @ fmtTime when @ ''] '' @ Trim message [CR, LF] @ [LF]) = (failed, f1, st2)"
      by (cases "WriteString st1 f (''['' @ fmtTime when @ ''] '' @ Trim message [CR, LF] @ [LF])") auto
    have k2: "calls st2 = calls st1" "logLineListeners st2 = logLineListeners st1"
      using WriteString_keeps [OF w] by simp_all
    show ?thesis using Pair Inr w k k2
      by (simp add: Log_def Let_def store_def notify_def)
  qed
qed

lemma Log_result:
  "fst (Log fmtTime st service when message) =
     (case fst (logFile st service) of
        Inl err \<Rightarrow> Err err
      | Inr f \<Rightarrow> if fst (WriteString (snd (logFile st service)) f
                          (''['' @ fmtTime when @ ''] '' @ Trim message [CR, LF] @ [LF]))
                 then Err WriteFailed else Ok)"
  by (simp add: Log_def Let_def split: prod.splits sum.splits)

lemma logStatus_calls:
  "(fst (logStatus fmtTime st service status) = Ok \<longrightarrow>
      (\<exists>idt. idText (ID status) = Some idt \<and>
         calls (snd (logStatus fmtTime st service status)) =
           calls st @ map (\<lambda>listener. (listener, service,
                 announced idt status
                   (statusLines (currVertexStatuses (snd (logStatus fmtTime st service status))))))
             (logLineListeners st))) \<and>
   (fst (logStatus fmtTime st service status) \<noteq> Ok \<longrightarrow>
      calls (snd (logStatus fmtTime st service status)) = calls st)"
proof (cases "logFile st service")
  case (Pair r st1)
  have k: "calls st1 = calls st" "logLineListeners st1 = logLineListeners st"
    using logFile_keeps [OF Pair] by simp_all
  show ?thesis
  proof (cases r)
    case (Inl err)
    then show ?thesis using Pair k by (simp add: logStatus_def)
  next
    case (Inr f)
    show ?thesis
    proof (cases "idText (ID status)")
      case None
      then show ?thesis using Pair Inr k by (simp add: logStatus_def)
    next
      case (Some idt)
      let ?stt = "''['' @ fmtTime (Timestamp status) @ ''] '' @ statusText idt status"
      show ?thesis
      proof (cases "Completed status")
        case None
        let ?st2 = "st1\<lparr>currVertexStatuses :=
                        AList.update (ID status) ?stt (currVertexStatuses st1)\<rparr>"
        let ?blk = "concat (statusLines (currVertexStatuses ?st2))"
        obtain failed f2 st3 where w: "WriteString ?st2 f ?blk = (failed, f2, st3)"
          by (metis surj_pair)
        obtain sfail f3 st4 where sk: "Seek st3 f2 (- int (length ?blk)) = (sfail, f3, st4)"
          by (metis surj_pair)
        have k3: "calls st3 = calls st" "logLineListeners st3 = logLineListeners st"
          "currVertexStatuses st3 = currVertexStatuses ?st2"
          using WriteString_keeps [OF w] k by simp_all
        have k4: "calls st4 = calls st" "logLineListeners st4 = logLineListeners st"
          "currVertexStatuses st4 = currVertexStatuses ?st2"
          using Seek_keeps [OF sk] k3 by simp_all
        show ?thesis
          using Pair Inr Some None w sk k3 k4
          by (cases sfail; cases failed)
            (simp_all add: logStatus_def Let_def announced_def store_def notify_def)
      next
        case (Some t)
        let ?st' = "st1\<lparr>currVertexStatuses :=
                        AList.delete (ID status) (currVertexStatuses st1)\<rparr>"
        obtain failed1 f1 st2 where w1: "WriteString ?st' f (?stt @ [LF]) = (failed1, f1, st2)"
          by (metis surj_pair)
        have k2: "calls st2 = calls st" "logLineListeners st2 = logLineListeners st"
          "currVertexStatuses st2 = currVertexStatuses ?st'"
          using WriteString_keeps [OF w1] k by simp_all
        let ?blk = "concat (statusLines (currVertexStatuses st2))"
        obtain failed f2 st3 where w: "WriteString st2 f1 ?blk = (failed, f2, st3)"
          by (metis surj_pair)
        obtain sfail f3 st4 where sk: "Seek st3 f2 (- int (length ?blk)) = (sfail, f3, st4)"
          by (metis surj_pair)
        have k3: "calls st3 = calls st" "logLineListeners st3 = logLineListeners st"
          "currVertexStatuses st3 = currVertexStatuses st2"
          using WriteString_keeps [OF w] k2 by simp_all
        have k4: "calls st4 = calls st" "logLineListeners st4 = logLineListeners st"
          "currVertexStatuses st4 = currVertexStatuses st2"
          using Seek_keeps [OF sk] k3 by simp_all
        show ?thesis
          using Pair Inr \<open>idText (ID status) = Some idt\<close> Some w1 w sk k2 k3 k4
          by (cases sfail; cases failed)
            (simp_all add: logStatus_def Let_def announced_def store_def notify_def)
      qed
    qed
  qed
qed

lemma hrb_examples:
  "humanReadableBytes 50 = ''50.00B''" "humanReadableBytes 100 = ''100.00B''"
  "humanReadableBytes 1024 = ''1.00KB''" "humanReadableBytes 0 = ''0B''"
  by (simp_all add: humanReadableBytes_def float64_def fmt2f_def hundredths_def digit_def suf_def)

lemma freshLogger_fields [simp]:
  "faults (freshLogger ls fs) = fs" "calls (freshLogger ls fs) = []"
  "logLineListeners (freshLogger ls fs) = ls" "currVertexStatuses (freshLogger ls fs) = []"
  "openFiles (freshLogger ls fs) = Map.empty" "verbose (freshLogger ls fs) = False"
  "ticks (freshLogger ls fs) = 0"
  by (simp_all add: freshLogger_def NewFlatfileLogger_def)

lemma wellFormed_freshLogger: "wellFormed (freshLogger ls fs)"
  by (simp add: wellFormed_def)

lemma permanent_freshLogger [simp]: "permanent (freshLogger ls fs) service = []"
  by (simp add: permanent_def)

lemma progress_fields [simp]:
  "ID (progress ident cur tot t d) = ident" "Total (progress ident cur tot t d) = tot"
  "Current (progress ident cur tot t d) = cur" "Timestamp (progress ident cur tot t d) = t"
  "Completed (progress ident cur tot t d) = d"
  by (simp_all add: progress_def)

lemma IndexFrom_range: "IndexFrom i s sub = -1 \<or> int i \<le> IndexFrom i s sub"
proof (induction s arbitrary: i)
  case Nil
  show ?case by simp
next
  case (Cons c cs)
  from Cons.IH [of "Suc i"] show ?case by auto
qed

lemma Index_zero_iff: "Index s sub = 0 \<longleftrightarrow> HasPrefix s sub"
proof (cases s)
  case Nil
  then show ?thesis by (auto simp: Index_def HasPrefix_def)
next
  case (Cons c cs)
  from IndexFrom_range [of 1 cs sub] have "IndexFrom (Suc 0) cs sub \<noteq> 0" by auto
  then show ?thesis using Cons by (simp add: Index_def)
qed

lemma IndexFrom_char:
  "IndexFrom i s [c] =
     (if c \<in> set s then int (i + length (takeWhile (\<lambda>x. x \<noteq> c) s)) else -1)"
  by (induction s arbitrary: i) (simp_all add: HasPrefix_def)

lemma takeWhile_until:
  "\<not> P y \<Longrightarrow> length (takeWhile P (xs @ y # ys)) \<le> length xs"
proof (cases "\<forall>x \<in> set xs. P x")
  case True
  assume "\<not> P y"
  then show ?thesis using True by (simp add: takeWhile_append2)
next
  case False
  then obtain x where "x \<in> set xs" "\<not> P x" by blast
  then have "takeWhile P (xs @ y # ys) = takeWhile P xs" by (rule takeWhile_append1)
  then show ?thesis by (simp add: length_takeWhile_le)
qed

lemma removeDate_in_range:
  "0 \<le> Index (''['' @ d @ ''] '' @ x @ [LF]) '']'' \<and>
   nat (Index (''['' @ d @ ''] '' @ x @ [LF]) '']'' + 2) \<le> length (''['' @ d @ ''] '' @ x @ [LF])"
proof -
  define s where "s = ''['' @ d @ ''] '' @ x @ [LF]"
  have s: "s = (''['' @ d) @ CHR '']'' # ('' '' @ x @ [LF])" by (simp add: s_def)
  have m: "CHR '']'' \<in> set s" by (simp add: s_def)
  have "length (takeWhile (\<lambda>c. c \<noteq> CHR '']'') s) \<le> length (''['' @ d)"
    unfolding s by (rule takeWhile_until) simp
  moreover have "Index s '']'' = int (length (takeWhile (\<lambda>c. c \<noteq> CHR '']'') s))"
    using m by (simp add: Index_def IndexFrom_char)
  moreover have "length s = length d + length x + 4" by (simp add: s_def)
  ultimately show ?thesis unfolding s_def [symmetric] by simp
qed

lemma dropWhile_id: "xs = [] \<or> \<not> P (hd xs) \<Longrightarrow> dropWhile P xs = xs"
  by (cases xs) auto

lemma dropWhile_rev_ends:
  assumes "ys = dropWhile P (rev xs)" "ys \<noteq> []" "xs = [] \<or> \<not> P (hd xs)"
  shows "\<not> P (hd ys) \<and> \<not> P (last ys)"
proof -
  have h: "\<not> P (hd ys)" using assms(1,2) hd_dropWhile [of P "rev xs"] by simp
  have xs: "xs \<noteq> []" using assms(1,2) by auto
  have "rev xs = takeWhile P (rev xs) @ ys" using assms(1) by simp
  then have "last (rev xs) = last ys" using assms(2) by (metis last_appendR)
  then have "last ys = hd xs" using xs by (simp add: last_rev)
  then show ?thesis using h assms(3) xs by simp
qed

lemma Trim_ends:
  "Trim s cs \<noteq> [] \<Longrightarrow> hd (Trim s cs) \<notin> set cs \<and> last (Trim s cs) \<notin> set cs"
proof -
  assume ne: "Trim s cs \<noteq> []"
  define P where "P = (\<lambda>c. c \<in> set cs)"
  define a where "a = dropWhile P s"
  define b where "b = dropWhile P (rev a)"
  have t: "Trim s cs = rev b" by (simp add: Trim_def a_def b_def P_def)
  have bne: "b \<noteq> []" using ne t by simp
  have a0: "a = [] \<or> \<not> P (hd a)" unfolding a_def using hd_dropWhile [of P s] by blast
  from dropWhile_rev_ends [OF b_def bne a0] have "\<not> P (hd b)" "\<not> P (last b)" by simp_all
  then show ?thesis using bne by (simp add: t hd_rev last_rev P_def)
qed

lemma Trim_idem: "Trim (Trim s cs) cs = Trim s cs"
proof (cases "Trim s cs = []")
  case True
  have "Trim [] cs = []" by (simp add: Trim_def)
  then show ?thesis by (simp only: True)
next
  case False
  let ?P = "\<lambda>c. c \<in> set cs"
  let ?t = "Trim s cs"
  from Trim_ends [OF False] have e: "\<not> ?P (hd ?t)" "\<not> ?P (last ?t)" by simp_all
  have 1: "dropWhile ?P ?t = ?t" using e(1) by (intro dropWhile_id) simp
  have "\<not> ?P (hd (rev ?t))" using e(2) False by (simp add: hd_rev)
  then have 2: "dropWhile ?P (rev ?t) = rev ?t" by (intro dropWhile_id) simp
  have "Trim ?t cs = rev (dropWhile ?P (rev (dropWhile ?P ?t)))" by (simp only: Trim_def)
  also have "\<dots> = rev (dropWhile ?P (rev ?t))" by (simp only: 1)
  also have "\<dots> = ?t" by (simp only: 2 rev_rev_ident)
  finally show ?thesis .
qed

lemma Trim_decompose:
  "\<exists>pre post. s = pre @ Trim s cs @ post \<and> set pre \<subseteq> set cs \<and> set post \<subseteq> set cs"
proof -
  define P where "P = (\<lambda>c. c \<in> set cs)"
  define a where "a = dropWhile P s"
  define pre where "pre = takeWhile P s"
  define post where "post = rev (takeWhile P (rev a))"
  have t: "Trim s cs = rev (dropWhile P (rev a))" by (simp add: Trim_def a_def P_def)
  have "a = rev (takeWhile P (rev a) @ dropWhile P (rev a))"
    by (simp only: takeWhile_dropWhile_id rev_rev_ident)
  then have "a = rev (dropWhile P (rev a)) @ rev (takeWhile P (rev a))"
    by (simp only: rev_append)
  then have a2: "a = Trim s cs @ post" by (simp only: t post_def)
  have sa: "s = pre @ a" by (simp add: pre_def a_def)
  have s: "s = pre @ Trim s cs @ post"
    by (rule trans [OF sa arg_cong [where f = "(@) pre", OF a2]])
  have p1: "set pre \<subseteq> set cs"
    by (auto simp: pre_def P_def dest: set_takeWhileD)
  have p2: "set post \<subseteq> set cs"
    by (auto simp: post_def P_def dest: set_takeWhileD)
  show ?thesis
  proof (intro exI conjI)
    show "s = pre @ Trim s cs @ post" by (rule s)
    show "set pre \<subseteq> set cs" by (rule p1)
    show "set post \<subseteq> set cs" by (rule p2)
  qed
qed

lemma Now_fields [simp]:
  "fst (Now st) = clock st (ticks st)" "faults (snd (Now st)) = faults st"
  "wellFormed (snd (Now st)) = wellFormed st" "permanent (snd (Now st)) service = permanent st service"
  "ticks (snd (Now st)) = Suc (ticks st)" "clock (snd (Now st)) = clock st"
  "verbose (snd (Now st)) = verbose st" "calls (snd (Now st)) = calls st"
  "currVertexStatuses (snd (Now st)) = currVertexStatuses st"
  "logLineListeners (snd (Now st)) = logLineListeners st"
  by (simp_all add: Now_def wellFormed_def permanent_def)

lemma LogNow_effect:
  assumes nf: "faults st = []" and wf: "wellFormed st"
  obtains st' where "LogNow fmtTime st service message = (Ok, st')"
    and "faults st' = []" and "wellFormed st'"
    and "permanent st' service =
           permanent st service @ entry fmtTime (clock st (ticks st)) message"
    and "ticks st' = Suc (ticks st)" and "clock st' = clock st" and "verbose st' = verbose st"
proof -
  define st1 where "st1 = snd (Now st)"
  have n: "Now st = (clock st (ticks st), st1)" by (simp add: st1_def Now_def)
  have nf1: "faults st1 = []" and wf1: "wellFormed st1" using nf wf by (simp_all add: st1_def)
  define st' where "st' = snd (Log fmtTime st1 service (clock st (ticks st)) message)"
  note eff = Log_effect [OF nf1 wf1, of fmtTime service "clock st (ticks st)" message]
  have eq: "LogNow fmtTime st service message = (Ok, st')"
    using eff(1) by (simp add: LogNow_def n st'_def prod_eq_iff)
  show thesis
  proof (rule that [OF eq])
    show "faults st' = []" unfolding st'_def by (rule eff(2))
    show "wellFormed st'" unfolding st'_def by (rule eff(3))
    show "permanent st' service = permanent st service @ entry fmtTime (clock st (ticks st)) message"
      unfolding st'_def using eff(4) by (simp add: st1_def entry_def)
    show "ticks st' = Suc (ticks st)" unfolding st'_def using eff(8) by (simp add: st1_def)
    show "clock st' = clock st" unfolding st'_def using eff(9) by (simp add: st1_def)
    show "verbose st' = verbose st" unfolding st'_def using eff(7) by (simp add: st1_def)
  qed
qed

lemma logVerbose_effect:
  fixes fmtTime :: "time \<Rightarrow> string" and st :: flatfileLogger and service message :: string
  assumes nf: "faults st = []" and wf: "wellFormed st"
  defines "st' \<equiv> logVerbose fmtTime st service message"
  shows "faults st' = []" and "wellFormed st'"
    and "permanent st' service =
           permanent st service @
             (if verbose st then entry fmtTime (clock st (ticks st)) message else [])"
    and "ticks st' = ticks st + (if verbose st then 1 else 0)"
    and "clock st' = clock st" and "verbose st' = verbose st"
proof -
  have "faults st' = [] \<and> wellFormed st' \<and>
        permanent st' service =
           permanent st service @
             (if verbose st then entry fmtTime (clock st (ticks st)) message else []) \<and>
        ticks st' = ticks st + (if verbose st then 1 else 0) \<and>
        clock st' = clock st \<and> verbose st' = verbose st"
  proof (cases "verbose st")
    case True
    obtain s where
      s: "LogNow fmtTime st service message = (Ok, s)" "faults s = []" "wellFormed s"
         "permanent s service = permanent st service @ entry fmtTime (clock st (ticks st)) message"
         "ticks s = Suc (ticks st)" "clock s = clock st" "verbose s = verbose st"
      by (rule LogNow_effect [OF nf wf, of fmtTime service message])
    have "st' = s" using True s(1) by (simp add: st'_def logVerbose_def)
    then show ?thesis using s(2-7) True by simp
  next
    case False
    then have "st' = st" by (simp add: st'_def logVerbose_def)
    then show ?thesis using False nf wf by simp
  qed
  then show "faults st' = []" and "wellFormed st'"
    and "permanent st' service =
           permanent st service @
             (if verbose st then entry fmtTime (clock st (ticks st)) message else [])"
    and "ticks st' = ticks st + (if verbose st then 1 else 0)"
    and "clock st' = clock st" and "verbose st' = verbose st"
    by simp_all
qed

text \<open>
  Claim C5. With no failing system call, a vertex event whose name does not start with
  \<open>[internal]\<close> commits, in this order: when it carries an error, a line with the error
  text and the layer identifier; then the line of its name, prefixed \<open>cached: \<close> when the
  vertex is cached. An event whose name starts with \<open>[internal]\<close> commits neither. In
  verbose mode the diagnostic line of the event comes first, for every event, internal or
  not. Each line carries the clock reading taken for it.
\<close>

theorem vertex_lines:
  assumes "faults st = []" and "wellFormed st"
  shows "fst (vertexStep fmtTime service st v) = Ok \<and>
    permanent (snd (vertexStep fmtTime service st v)) service =
      permanent st service @
      (if verbose st then entry fmtTime (clock st (ticks st)) (vertexDiagnostic v) else []) @
      (if HasPrefix (Name v) ''[internal]'' then []
       else (if Error v \<noteq> []
             then entry fmtTime (clock st (ticks st + (if verbose st then 1 else 0)))
                    (Error v @ '': LAYERID='' @ Digest v)
             else []) @
            entry fmtTime
              (clock st (ticks st + (if verbose st then 1 else 0) + (if Error v \<noteq> [] then 1 else 0)))
              ((if Cached v then ''cached: '' else []) @ Name v))"
proof -
  define st1 where "st1 = logVerbose fmtTime st service (vertexDiagnostic v)"
  note v = logVerbose_effect [OF assms, of fmtTime service "vertexDiagnostic v", folded st1_def]
  define t1 where "t1 = ticks st + (if verbose st then 1 else 0)"
  have tk1: "ticks st1 = t1" using v(4) by (simp add: t1_def)
  have unf: "vertexStep fmtTime service st v =
     (if Index (Name v) ''[internal]'' \<noteq> 0
         then let logMessage = (if Cached v then ''cached: '' @ Name v else Name v);
                  (r1, st2) = (if Error v \<noteq> []
                               then LogNow fmtTime st1 service (Error v @ '': LAYERID='' @ Digest v)
                               else (Ok, st1))
              in (case r1 of
                    Err err \<Rightarrow> (Err (CouldNotLogFailure service err), st2)
                  | _ \<Rightarrow>
                      (case LogNow fmtTime st2 service logMessage of
                         (Err err, st3) \<Rightarrow> (Err (CouldNotWrite service err), st3)
                       | (_, st3) \<Rightarrow> (Ok, st3)))
         else (Ok, st1))"
    by (simp only: vertexStep_def Let_def st1_def vertexDiagnostic_def)
  show ?thesis
  proof (cases "HasPrefix (Name v) ''[internal]''")
    case True
    then have "vertexStep fmtTime service st v = (Ok, st1)"
      by (simp add: unf Index_zero_iff)
    then show ?thesis using True v(3) by simp
  next
    case False
    define msg where "msg = (if Cached v then ''cached: '' @ Name v else Name v)"
    have msg': "msg = (if Cached v then ''cached: '' else []) @ Name v" by (simp add: msg_def)
    obtain st2 where st2: "(if Error v \<noteq> []
                               then LogNow fmtTime st1 service (Error v @ '': LAYERID='' @ Digest v)
                               else (Ok, st1)) = (Ok, st2)"
        and nf2: "faults st2 = []" and wf2: "wellFormed st2"
        and p2: "permanent st2 service = permanent st1 service @
                   (if Error v \<noteq> [] then entry fmtTime (clock st t1) (Error v @ '': LAYERID='' @ Digest v) else [])"
        and tk2: "ticks st2 = t1 + (if Error v \<noteq> [] then 1 else 0)" and ck2: "clock st2 = clock st"
    proof (cases "Error v \<noteq> []")
      case True
      obtain s where s: "LogNow fmtTime st1 service (Error v @ '': LAYERID='' @ Digest v) = (Ok, s)"
        "faults s = []" "wellFormed s"
        "permanent s service = permanent st1 service @
           entry fmtTime (clock st1 (ticks st1)) (Error v @ '': LAYERID='' @ Digest v)"
        "ticks s = Suc (ticks st1)" "clock s = clock st1" "verbose s = verbose st1"
        by (rule LogNow_effect [OF v(1) v(2)])
      show thesis
        by (rule that [of s]) (use True s v(5) tk1 in simp_all)
    next
      case False
      show thesis
        by (rule that [of st1]) (use False v tk1 in simp_all)
    qed
    obtain st3 where st3: "LogNow fmtTime st2 service msg = (Ok, st3)"
        and p3: "permanent st3 service = permanent st2 service @
                   entry fmtTime (clock st2 (ticks st2)) msg"
      by (rule LogNow_effect [OF nf2 wf2, of fmtTime service msg])
    have "vertexStep fmtTime service st v = (Ok, st3)"
      using False st2 st3 by (simp add: unf Index_zero_iff Let_def msg_def [symmetric])
    then show ?thesis
      using False by (simp add: p3 p2 v(3) tk2 ck2 t1_def msg')
  qed
qed

lemma HasPrefix_Cons [simp]:
  "HasPrefix s [] = True"
  "HasPrefix [] (c # p) = False"
  "HasPrefix (d # s) (c # p) = (d = c \<and> HasPrefix s p)"
  by (auto simp: HasPrefix_def)

lemma wellFormed_verbose [simp]: "wellFormed (st\<lparr>verbose := b\<rparr>) = wellFormed st"
  by (simp add: wellFormed_def)

lemma permanent_verbose [simp]: "permanent (st\<lparr>verbose := b\<rparr>) service = permanent st service"
  by (simp add: permanent_def)

text \<open>
  The statement at a cached vertex with an error on a new logger, and at an internal
  vertex on a new logger in verbose mode.
\<close>

theorem vertex_lines_witness:
  "faults (freshLogger [] []) = [] \<and> wellFormed (freshLogger [] []) \<and>
   permanent (snd (vertexStep showTime ''svc'' (freshLogger [] [])
       \<lparr>Digest = ''sha256:d'', Name = ''RUN make'', Cached = True, Error = ''boom''\<rparr>)) ''svc'' =
     ''[0] boom: LAYERID=sha256:d'' @ [LF] @ ''[0] cached: RUN make'' @ [LF] \<and>
   faults ((freshLogger [] [])\<lparr>verbose := True\<rparr>) = [] \<and>
   wellFormed ((freshLogger [] [])\<lparr>verbose := True\<rparr>) \<and>
   permanent (snd (vertexStep showTime ''svc'' ((freshLogger [] [])\<lparr>verbose := True\<rparr>)
       \<lparr>Digest = ''sha256:d'', Name = ''[internal] load'', Cached = False, Error = []\<rparr>)) ''svc'' =
     ''[0] Vertex: '' @ [QUOTE] @ ''[internal] load'' @ [QUOTE] @ '',  '' @ [QUOTE, QUOTE] @ '',  ''
       @ [QUOTE] @ ''sha256:d'' @ [QUOTE] @ [LF]"
proof -
  have a: "faults (freshLogger [] []) = []" by simp
  have b: "wellFormed (freshLogger [] [])" by (rule wellFormed_freshLogger)
  have a': "faults ((freshLogger [] [])\<lparr>verbose := True\<rparr>) = []" by simp
  have b': "wellFormed ((freshLogger [] [])\<lparr>verbose := True\<rparr>)"
    by (simp add: wellFormed_freshLogger)
  have c: "clock (freshLogger [] []) = (\<lambda>i. 0)"
    by (simp add: freshLogger_def NewFlatfileLogger_def)
  from vertex_lines [OF a b, of showTime "''svc''"
      "\<lparr>Digest = ''sha256:d'', Name = ''RUN make'', Cached = True, Error = ''boom''\<rparr>"]
    vertex_lines [OF a' b', of showTime "''svc''"
      "\<lparr>Digest = ''sha256:d'', Name = ''[internal] load'', Cached = False, Error = []\<rparr>"]
  show ?thesis using a b a' b'
    by (simp add: c entry_def vertexDiagnostic_def showTime_def Trim_def)
qed

text \<open>
  Claim C6, as the code has it. With no failing system call, a raw log-line event commits
  one permanent line (after the diagnostic line, in verbose mode): its date is the event's
  own timestamp, whatever the clock reads, and its message is the event's data without
  its leading and its trailing carriage returns and line feeds, the rest unchanged.
\<close>

theorem raw_log_line:
  assumes "faults st = []" and "wellFormed st"
  shows "fst (logStep fmtTime service st log) = Ok \<and>
    permanent (snd (logStep fmtTime service st log)) service =
      permanent st service @
      (if verbose st then entry fmtTime (clock st (ticks st)) (logDiagnostic log) else []) @
      ''['' @ fmtTime (lTimestamp log) @ ''] '' @ Trim (Data log) [CR, LF] @ [LF] \<and>
    (\<exists>pre post. Data log = pre @ Trim (Data log) [CR, LF] @ post \<and>
       set pre \<subseteq> {CR, LF} \<and> set post \<subseteq> {CR, LF}) \<and>
    (Trim (Data log) [CR, LF] \<noteq> [] \<longrightarrow>
       hd (Trim (Data log) [CR, LF]) \<notin> {CR, LF} \<and> last (Trim (Data log) [CR, LF]) \<notin> {CR, LF})"
proof -
  define st1 where "st1 = logVerbose fmtTime st service (logDiagnostic log)"
  note v = logVerbose_effect [OF assms, of fmtTime service "logDiagnostic log", folded st1_def]
  note eff = Log_effect [OF v(1) v(2), of fmtTime service "lTimestamp log" "Trim (Data log) [CR, LF]"]
  have unf: "logStep fmtTime service st log =
      (case Log fmtTime st1 service (lTimestamp log) (Trim (Data log) [CR, LF]) of
            (Err err, st2) \<Rightarrow> (Err (CouldNotWrite service err), st2)
          | (_, st2) \<Rightarrow> (Ok, st2))"
    by (simp only: logStep_def Let_def st1_def logDiagnostic_def)
  define st2 where "st2 = snd (Log fmtTime st1 service (lTimestamp log) (Trim (Data log) [CR, LF]))"
  have lg: "Log fmtTime st1 service (lTimestamp log) (Trim (Data log) [CR, LF]) = (Ok, st2)"
    using eff(1) by (simp add: st2_def prod_eq_iff)
  have r: "logStep fmtTime service st log = (Ok, st2)"
    by (simp add: unf lg)
  have p: "permanent (snd (logStep fmtTime service st log)) service =
      permanent st service @
      (if verbose st then entry fmtTime (clock st (ticks st)) (logDiagnostic log) else []) @
      ''['' @ fmtTime (lTimestamp log) @ ''] '' @ Trim (Data log) [CR, LF] @ [LF]"
    using eff(4) by (simp add: r v(3) Trim_idem st2_def [symmetric])
  have d: "\<exists>pre post. Data log = pre @ Trim (Data log) [CR, LF] @ post \<and>
       set pre \<subseteq> {CR, LF} \<and> set post \<subseteq> {CR, LF}"
    using Trim_decompose [of "Data log" "[CR, LF]"] by simp
  have e: "Trim (Data log) [CR, LF] \<noteq> [] \<longrightarrow>
       hd (Trim (Data log) [CR, LF]) \<notin> {CR, LF} \<and> last (Trim (Data log) [CR, LF]) \<notin> {CR, LF}"
    using Trim_ends [of "Data log" "[CR, LF]"] by simp
  show ?thesis using r p d e by simp
qed

text \<open>The statement at a line with a line feed before and after its text.\<close>

theorem raw_log_line_witness:
  "faults (freshLogger [] []) = [] \<and> wellFormed (freshLogger [] []) \<and>
   fst (logStep showTime ''svc'' (freshLogger [] [])
          \<lparr>lVertex = ''v'', Data = [LF] @ ''abc'' @ [CR, LF], lTimestamp = 5\<rparr>) = Ok \<and>
   permanent (snd (logStep showTime ''svc'' (freshLogger [] [])
          \<lparr>lVertex = ''v'', Data = [LF] @ ''abc'' @ [CR, LF], lTimestamp = 5\<rparr>)) ''svc'' =
     ''[5] abc'' @ [LF]"
proof -
  have a: "faults (freshLogger [] []) = []" by simp
  have b: "wellFormed (freshLogger [] [])" by (rule wellFormed_freshLogger)
  from raw_log_line [OF a b, of showTime "''svc''"
      "\<lparr>lVertex = ''v'', Data = [LF] @ ''abc'' @ [CR, LF], lTimestamp = 5\<rparr>"]
  show ?thesis using a b
    by (simp add: showTime_def Trim_def digit_def)
qed

text \<open>
  Claim C6 as stated fails: the claim's message keeps everything but the trailing
  newline characters (\<open>trailingNewlinesRemoved\<close>); the code also removes the line feed
  at the start of the data.
\<close>

theorem raw_log_line_counterexample:
  "permanent (snd (logStep showTime ''svc'' (freshLogger [] [])
          \<lparr>lVertex = ''v'', Data = [LF] @ ''abc'' @ [LF], lTimestamp = 5\<rparr>)) ''svc'' =
     ''[5] abc'' @ [LF] \<and>
   trailingNewlinesRemoved ([LF] @ ''abc'' @ [LF]) = [LF] @ ''abc'' \<and>
   permanent (snd (logStep showTime ''svc'' (freshLogger [] [])
          \<lparr>lVertex = ''v'', Data = [LF] @ ''abc'' @ [LF], lTimestamp = 5\<rparr>)) ''svc'' \<noteq>
     ''[5] '' @ trailingNewlinesRemoved ([LF] @ ''abc'' @ [LF]) @ [LF]"
proof -
  have a: "faults (freshLogger [] []) = []" by simp
  have b: "wellFormed (freshLogger [] [])" by (rule wellFormed_freshLogger)
  note v = logVerbose_effect [OF a b, of showTime "''svc''"]
  have t: "Trim ([LF] @ ''abc'' @ [LF]) [CR, LF] = ''abc''" by (simp add: Trim_def)
  have s1: "logVerbose showTime (freshLogger [] []) ''svc'' m = freshLogger [] []" for m
    by (simp add: logVerbose_def)
  define s where "s = snd (Log showTime (freshLogger [] []) ''svc'' 5 ''abc'')"
  have lg: "Log showTime (freshLogger [] []) ''svc'' 5 ''abc'' = (Ok, s)"
    using Log_effect(1) [OF a b, of showTime "''svc''" 5 "''abc''"] by (simp add: s_def prod_eq_iff)
  have ps: "permanent s ''svc'' = ''[5] abc'' @ [LF]"
    using Log_effect(4) [OF a b, of showTime "''svc''" 5 "''abc''"]
    by (simp add: s_def [symmetric] showTime_def digit_def Trim_def)
  have p: "permanent (snd (logStep showTime ''svc'' (freshLogger [] [])
          \<lparr>lVertex = ''v'', Data = [LF] @ ''abc'' @ [LF], lTimestamp = 5\<rparr>)) ''svc'' =
     ''[5] abc'' @ [LF]"
    using t lg ps by (simp add: logStep_def s1 Let_def)
  have q: "trailingNewlinesRemoved ([LF] @ ''abc'' @ [LF]) = [LF] @ ''abc''"
    by (simp add: trailingNewlinesRemoved_def)
  show ?thesis unfolding q p by simp
qed

lemma idsInRange_Cons:
  "idsInRange (ev # evs) \<Longrightarrow> idsInRange evs"
  "idsInRange (StatusChurn status # evs) \<Longrightarrow> \<exists>idt. idText (ID status) = Some idt"
  by (auto simp: idsInRange_def)

lemma run_Nil [simp]: "run fmtTime service st [] = (Ok, st)"
  by (simp add: run_def)

lemma run_PermanentLine:
  assumes "faults st = []" and "wellFormed st"
  shows "run fmtTime service st (PermanentLine when message # evs) =
           run fmtTime service (snd (Log fmtTime st service when message)) evs"
proof -
  define s where "s = snd (Log fmtTime st service when message)"
  have "Log fmtTime st service when message = (Ok, s)"
    using Log_effect(1) [OF assms, of fmtTime service "when" message]
    by (simp add: s_def prod_eq_iff)
  then show ?thesis by (simp add: run_def s_def [symmetric])
qed

lemma run_StatusChurn:
  assumes "faults st = []" and "wellFormed st" and "idText (ID status) = Some idt"
  shows "run fmtTime service st (StatusChurn status # evs) =
           run fmtTime service (snd (logStatus fmtTime st service status)) evs"
proof -
  define s where "s = snd (logStatus fmtTime st service status)"
  have "logStatus fmtTime st service status = (Ok, s)"
    using logStatus_effect(1) [OF assms, of fmtTime service]
    by (simp add: s_def prod_eq_iff)
  then show ?thesis by (simp add: run_def s_def [symmetric])
qed

lemma run_effect:
  assumes "faults st = []" and "wellFormed st" and "idsInRange evs"
  shows "fst (run fmtTime service st evs) = Ok \<and>
         faults (snd (run fmtTime service st evs)) = [] \<and>
         wellFormed (snd (run fmtTime service st evs)) \<and>
         permanent (snd (run fmtTime service st evs)) service =
           permanent st service @ concat (permanentLines fmtTime evs)"
  using assms
proof (induction evs arbitrary: st)
  case Nil
  then show ?case by simp
next
  case (Cons ev evs)
  have ids: "idsInRange evs" using Cons.prems(3) by (rule idsInRange_Cons(1))
  show ?case
  proof (cases ev)
    case (PermanentLine t m)
    note eff = Log_effect [OF Cons.prems(1,2), of fmtTime service t m]
    from Cons.IH [OF eff(2) eff(3) ids]
    show ?thesis
      by (simp add: PermanentLine run_PermanentLine [OF Cons.prems(1,2)] eff(4) entry_def)
  next
    case (StatusChurn status)
    from idsInRange_Cons(2) [OF Cons.prems(3) [unfolded StatusChurn]]
    obtain idt where idt: "idText (ID status) = Some idt" by blast
    note eff = logStatus_effect [OF Cons.prems(1,2) idt, of fmtTime service]
    have fl0: "Completed status = None \<Longrightarrow> finalLine fmtTime idt status = []"
      by (simp add: finalLine_def)
    from Cons.IH [OF eff(2) eff(3) ids]
    show ?thesis
      by (simp add: StatusChurn run_StatusChurn [OF Cons.prems(1,2) idt] eff(5) idt fl0)
  qed
qed

lemma permanentLines_count:
  "idsInRange evs \<Longrightarrow>
     length (permanentLines fmtTime evs) = permanentEvents evs + length (completedIds evs)"
proof (induction evs)
  case Nil
  then show ?case by simp
next
  case (Cons ev evs)
  have ids: "idsInRange evs" using Cons.prems by (rule idsInRange_Cons(1))
  show ?case
  proof (cases ev)
    case (PermanentLine t m)
    then show ?thesis using Cons.IH [OF ids] by simp
  next
    case (StatusChurn s)
    from idsInRange_Cons(2) [OF Cons.prems [unfolded StatusChurn]]
    obtain idt where idt: "idText (ID s) = Some idt" by blast
    show ?thesis using Cons.IH [OF ids] by (simp add: StatusChurn idt)
  qed
qed

lemma permanentLines_end:
  "l \<in> set (permanentLines fmtTime evs) \<Longrightarrow> l \<noteq> [] \<and> last l = LF"
proof (induction evs)
  case Nil
  then show ?case by simp
next
  case (Cons ev evs)
  show ?case
  proof (cases ev)
    case (PermanentLine t m)
    then show ?thesis using Cons by (auto simp: entry_def)
  next
    case (StatusChurn s)
    then show ?thesis using Cons by (auto simp: finalLine_def split: option.splits if_splits)
  qed
qed

lemma digit_range: "d < 10 \<Longrightarrow> digit d \<in> set ''0123456789''"
  unfolding digit_def by (rule nth_mem) simp

lemma dec_digits: "set (dec n) \<subseteq> set ''0123456789''"
proof (induction n rule: dec.induct)
  case (1 n)
  show ?case
  proof (cases "n < 10")
    case True
    then show ?thesis using digit_range [of n] by (simp add: dec.simps [of n])
  next
    case False
    have "digit (n mod 10) \<in> set ''0123456789''" by (rule digit_range) simp
    then show ?thesis using "1.IH" [OF False] False by (simp add: dec.simps [of n])
  qed
qed

lemma dec_no_LF: "LF \<notin> set (dec n)"
  using dec_digits [of n] by auto

lemma digit_no_LF: "d < 10 \<Longrightarrow> LF \<noteq> digit d"
  using digit_range [of d] by auto

lemma fmt2f_no_LF: "LF \<notin> set (fmt2f x d)"
  by (simp add: fmt2f_def Let_def dec_no_LF digit_no_LF)

lemma suf_no_LF: "k < 7 \<Longrightarrow> LF \<notin> set (suf ! k)"
proof -
  assume "k < 7"
  then have "k \<in> {0, 1, 2, 3, 4, 5, 6}" by auto
  then show ?thesis by (auto simp: suf_def)
qed

lemma humanReadableBytes_no_LF: "LF \<notin> set (humanReadableBytes b)"
proof (cases "b = 0")
  case True
  then show ?thesis by (simp add: humanReadableBytes_def suf_def)
next
  case False
  from humanReadableBytes_nonzero [OF False] obtain k where
    "k < 7" "humanReadableBytes b = fmt2f (float64 (sint b)) (1024 ^ k) @ suf ! k" by blast
  then show ?thesis using fmt2f_no_LF suf_no_LF by simp
qed

lemma idText_subset: "idText ident = Some idt \<Longrightarrow> set idt \<subseteq> set ident"
  by (auto simp: idText_def slice_def split: if_splits dest: in_set_takeD in_set_dropD)

lemma statusText_no_LF: "LF \<notin> set idt \<Longrightarrow> LF \<notin> set (statusText idt status)"
  by (simp add: statusText_def humanReadableBytes_no_LF)

lemma lineCount_append [simp]: "lineCount (a @ b) = lineCount a + lineCount b"
  by (simp add: lineCount_def)

lemma lineCount_none: "LF \<notin> set s \<Longrightarrow> lineCount s = 0"
  by (auto simp: lineCount_def filter_empty_conv)

lemma lineCount_concat:
  "(\<And>l. l \<in> set ls \<Longrightarrow> lineCount l = 1) \<Longrightarrow> lineCount (concat ls) = length ls"
  by (induction ls) (simp_all add: lineCount_def)

lemma lineCount_entry:
  "LF \<notin> set (fmtTime t) \<Longrightarrow> LF \<notin> set (Trim m [CR, LF]) \<Longrightarrow> lineCount (entry fmtTime t m) = 1"
  by (auto simp: entry_def lineCount_def filter_empty_conv)

lemma lineCount_finalLine:
  "LF \<notin> set (fmtTime (Timestamp status)) \<Longrightarrow> LF \<notin> set idt \<Longrightarrow> Completed status \<noteq> None \<Longrightarrow>
     lineCount (finalLine fmtTime idt status) = 1"
  using statusText_no_LF [of idt status]
  by (auto simp: finalLine_def lineCount_def filter_empty_conv)

lemma singleLines_Cons: "singleLines fmtTime (ev # evs) \<Longrightarrow> singleLines fmtTime evs"
  by (simp add: singleLines_def)

lemma permanentLines_single:
  "singleLines fmtTime evs \<Longrightarrow> l \<in> set (permanentLines fmtTime evs) \<Longrightarrow> lineCount l = 1"
proof (induction evs)
  case Nil
  then show ?case by simp
next
  case (Cons ev evs)
  note sl = singleLines_Cons [OF Cons.prems(1)]
  show ?case
  proof (cases ev)
    case (PermanentLine t m)
    have "lineCount (entry fmtTime t m) = 1"
      using Cons.prems(1) by (intro lineCount_entry) (simp_all add: singleLines_def PermanentLine)
    then show ?thesis using Cons.IH [OF sl] Cons.prems(2) by (auto simp: PermanentLine)
  next
    case (StatusChurn s)
    have t: "LF \<notin> set (fmtTime (Timestamp s))" and i: "LF \<notin> set (ID s)"
      using Cons.prems(1) by (simp_all add: singleLines_def StatusChurn)
    have "lineCount (finalLine fmtTime idt s) = 1"
      if "idText (ID s) = Some idt" "Completed s \<noteq> None" for idt
    proof -
      have "LF \<notin> set idt" using idText_subset [OF that(1)] i by auto
      then show ?thesis
        by (rule lineCount_finalLine [where fmtTime = fmtTime and status = s and idt = idt,
              OF t _ that(2)])
    qed
    then show ?thesis using Cons.IH [OF sl] Cons.prems(2)
      by (auto simp: StatusChurn split: option.splits if_splits)
  qed
qed

text \<open>
  The permanent region after any sequence of updates to one service, permanent lines and
  status events in any order, with no failing system call and no id that makes the slice
  panic: every update succeeds, and the region is exactly the concatenation of the
  committed lines, one per permanent-line event and one per completion event. The
  completion events are counted with repetition, since \<open>logStatus\<close> keeps no record of
  the ids that completed: an id completed twice commits two lines. When no date, message
  or id holds a line feed, the line count of the region grows by these two numbers.
\<close>

lemma permanent_region:
  assumes "faults st = []" and "wellFormed st" and "idsInRange evs"
  shows "fst (run fmtTime service st evs) = Ok \<and>
    permanent (snd (run fmtTime service st evs)) service =
      permanent st service @ concat (permanentLines fmtTime evs) \<and>
    length (permanentLines fmtTime evs) = permanentEvents evs + length (completedIds evs) \<and>
    (singleLines fmtTime evs \<longrightarrow>
       lineCount (permanent (snd (run fmtTime service st evs)) service) =
         lineCount (permanent st service) + permanentEvents evs + length (completedIds evs))"
proof -
  note eff = run_effect [OF assms, of fmtTime service]
  have p: "permanent (snd (run fmtTime service st evs)) service =
      permanent st service @ concat (permanentLines fmtTime evs)" using eff by simp
  have n: "length (permanentLines fmtTime evs) = permanentEvents evs + length (completedIds evs)"
    by (rule permanentLines_count [OF assms(3)])
  have c: "lineCount (permanent (snd (run fmtTime service st evs)) service) =
         lineCount (permanent st service) + permanentEvents evs + length (completedIds evs)"
    if "singleLines fmtTime evs"
  proof -
    have "lineCount (concat (permanentLines fmtTime evs)) = length (permanentLines fmtTime evs)"
      by (rule lineCount_concat) (rule permanentLines_single [OF that])
    then show ?thesis by (simp add: p n)
  qed
  show ?thesis using eff p n c by blast
qed

text \<open>
  Values used by the runs below: the dates 5 and 6 as \<open>showTime\<close> prints them, what
  \<open>removeDate\<close> leaves of a line with such a date, ids that are not digests, and the
  sorted blocks of the two-entry maps.
\<close>

lemma removeDate_5 [simp]: "removeDate (CHR ''['' # CHR ''5'' # CHR '']'' # CHR '' '' # x) = x"
  by (simp add: removeDate_def Index_def HasPrefix_def)

lemma removeDate_6 [simp]: "removeDate (CHR ''['' # CHR ''6'' # CHR '']'' # CHR '' '' # x) = x"
  by (simp add: removeDate_def Index_def HasPrefix_def)

lemma showTime_5 [simp]: "showTime 5 = ''5''" "showTime 6 = ''6''"
  by (simp_all add: showTime_def digit_def)

lemma idText_plain [simp]: "idText ''a'' = Some ''a''" "idText ''b'' = Some ''b''" "idText ''z'' = Some ''z''"
  by (simp_all add: idText_def HasPrefix_def)

lemma tail_freshLogger [simp]: "tail (freshLogger ls fs) service = []"
  by (simp add: tail_def)

lemma hrb_1 [simp]: "humanReadableBytes 1 = ''1.00B''"
  by (simp add: humanReadableBytes_def float64_def fmt2f_def hundredths_def digit_def suf_def)

lemma lines_az:
  "statusLines [(''z'', ''[5] z 0B''), (''a'', ''[5] a 1.00KB/1.00KB'')] =
     [''[5] a 1.00KB/1.00KB'' @ [LF], ''[5] z 0B'' @ [LF]]"
  "statusLines [(''z'', ''[5] z 0B''), (''a'', ''[5] a 0B'')] =
     [''[5] a 0B'' @ [LF], ''[5] z 0B'' @ [LF]]"
  "statusLines [(''b'', ''[5] b 50.00B/100.00B''), (''a'', ''[6] a 1.00B'')] =
     [''[6] a 1.00B'' @ [LF], ''[5] b 50.00B/100.00B'' @ [LF]]"
  by (simp_all add: statusLines_def less_eq_char_def)

text \<open>
  The id \<open>a\<close> completes twice on a new logger: both events succeed and each commits its
  line, so the permanent region holds two lines for the one id.
\<close>

lemma second_completion:
  "fst (run showTime ''svc'' (freshLogger [] [])
       [StatusChurn (progress ''a'' 1 0 5 (Some 5)), StatusChurn (progress ''a'' 1 0 5 (Some 5))]) = Ok \<and>
   permanent (snd (run showTime ''svc'' (freshLogger [] [])
       [StatusChurn (progress ''a'' 1 0 5 (Some 5)), StatusChurn (progress ''a'' 1 0 5 (Some 5))])) ''svc''
     = ''[5] a 1.00B'' @ [LF] @ ''[5] a 1.00B'' @ [LF]"
proof -
  let ?st0 = "freshLogger [] []"
  let ?evs = "[StatusChurn (progress ''a'' 1 0 5 (Some 5)), StatusChurn (progress ''a'' 1 0 5 (Some 5))]"
  have a: "faults ?st0 = []" by simp
  have b: "wellFormed ?st0" by (rule wellFormed_freshLogger)
  have c: "idsInRange ?evs" by (auto simp: idsInRange_def)
  note eff = run_effect [OF a b c, of showTime "''svc''"]
  have p: "permanent (snd (run showTime ''svc'' ?st0 ?evs)) ''svc'' = concat (permanentLines showTime ?evs)"
    using eff by simp
  have l: "concat (permanentLines showTime ?evs) = ''[5] a 1.00B'' @ [LF] @ ''[5] a 1.00B'' @ [LF]"
    by (simp add: finalLine_def statusText_def)
  show ?thesis using eff p l by simp
qed

text \<open>
  Claim C1. After each status update the tail of the service's log file must equal
  exactly the block just rendered, with no bytes left of an earlier, larger block. The
  code breaks this: \<open>logStatus\<close> writes the block at the cursor and seeks back, and never
  truncates the file. Here the status of \<open>a\<close> goes from 1024 bytes to 0 bytes on a new
  logger: both updates succeed, the block now rendered is the line \<open>[5] a 0B\<close>, and the
  tail of the file is that line followed by \<open>0KB\<close> and a line feed, the last four bytes of
  the block before.
\<close>

theorem residual_bytes:
  "fst (run showTime ''svc'' (freshLogger [] [])
       [StatusChurn (progress ''a'' 1024 0 5 None), StatusChurn (progress ''a'' 0 0 5 None)]) = Ok \<and>
   block (snd (run showTime ''svc'' (freshLogger [] [])
       [StatusChurn (progress ''a'' 1024 0 5 None), StatusChurn (progress ''a'' 0 0 5 None)]))
     = ''[5] a 0B'' @ [LF] \<and>
   tail (snd (run showTime ''svc'' (freshLogger [] [])
       [StatusChurn (progress ''a'' 1024 0 5 None), StatusChurn (progress ''a'' 0 0 5 None)])) ''svc''
     = ''[5] a 0B'' @ [LF] @ ''0KB'' @ [LF] \<and>
   tail (snd (run showTime ''svc'' (freshLogger [] [])
       [StatusChurn (progress ''a'' 1024 0 5 None), StatusChurn (progress ''a'' 0 0 5 None)])) ''svc''
     \<noteq> block (snd (run showTime ''svc'' (freshLogger [] [])
       [StatusChurn (progress ''a'' 1024 0 5 None), StatusChurn (progress ''a'' 0 0 5 None)]))"
proof -
  let ?st0 = "freshLogger [] []"
  let ?e1 = "progress ''a'' 1024 0 5 None"
  let ?e2 = "progress ''a'' 0 0 5 None"
  have a: "faults ?st0 = []" by simp
  have b: "wellFormed ?st0" by (rule wellFormed_freshLogger)
  have i1: "idText (ID ?e1) = Some ''a''" and i2: "idText (ID ?e2) = Some ''a''" by simp_all
  define s1 where "s1 = snd (logStatus showTime ?st0 ''svc'' ?e1)"
  define s2 where "s2 = snd (logStatus showTime s1 ''svc'' ?e2)"
  note f1 = logStatus_effect [OF a b i1, of showTime "''svc''", folded s1_def]
  note f2 = logStatus_effect [OF f1(2) f1(3) i2, of showTime "''svc''", folded s2_def]
  have r: "run showTime ''svc'' ?st0 [StatusChurn ?e1, StatusChurn ?e2] = (Ok, s2)"
    by (simp add: run_StatusChurn [OF a b i1] run_StatusChurn [OF f1(2) f1(3) i2]
        s1_def [symmetric] s2_def [symmetric])
  have m1: "currVertexStatuses s1 = [(''a'', ''[5] a 1.00KB'')]"
    using f1(4) by (simp add: newStatuses_def statusText_def hrb_examples)
  have m2: "currVertexStatuses s2 = [(''a'', ''[5] a 0B'')]"
    using f2(4) by (simp add: m1 newStatuses_def statusText_def hrb_examples)
  have b1: "block s1 = ''[5] a 1.00KB'' @ [LF]" by (simp add: block_def m1 statusLines_def)
  have b2: "block s2 = ''[5] a 0B'' @ [LF]" by (simp add: block_def m2 statusLines_def)
  have t1: "tail s1 ''svc'' = ''[5] a 1.00KB'' @ [LF]"
    using f1(6) by (simp add: b1 finalLine_def)
  have t2: "tail s2 ''svc'' = ''[5] a 0B'' @ [LF] @ ''0KB'' @ [LF]"
    using f2(6) by (simp add: b2 t1 finalLine_def)
  have ok: "fst (run showTime ''svc'' ?st0 [StatusChurn ?e1, StatusChurn ?e2]) = Ok"
    by (simp only: r fst_conv)
  have bl: "block (snd (run showTime ''svc'' ?st0 [StatusChurn ?e1, StatusChurn ?e2]))
     = ''[5] a 0B'' @ [LF]"
    by (simp only: r snd_conv b2)
  have t: "tail (snd (run showTime ''svc'' ?st0 [StatusChurn ?e1, StatusChurn ?e2])) ''svc''
     = ''[5] a 0B'' @ [LF] @ ''0KB'' @ [LF]"
    by (simp only: r snd_conv t2)
  have ne: "tail (snd (run showTime ''svc'' ?st0 [StatusChurn ?e1, StatusChurn ?e2])) ''svc''
     \<noteq> block (snd (run showTime ''svc'' ?st0 [StatusChurn ?e1, StatusChurn ?e2]))"
    unfolding t bl by simp
  show ?thesis by (intro conjI) (rule ok, rule bl, rule t, rule ne)
qed

text \<open>
  Claim C4. A completion event must remove its id from the status map and commit one
  final permanent line for it, so that afterwards the ephemeral block holds no line for
  the id and one permanent line for it exists; other events upsert the entry of their
  id. The code does the first half and breaks the second. Here \<open>z\<close> and then \<open>a\<close>
  report progress, \<open>a\<close> falls from 1024 of 1024 bytes to 0 bytes, and \<open>z\<close> completes: all
  four updates succeed, the map has lost \<open>z\<close> and kept \<open>a\<close>, the permanent region is the
  one final line of \<open>z\<close>, the block rendered last is the line of \<open>a\<close> alone, and yet the
  tail of the file is that line followed by \<open>B\<close>, a line feed and a whole line
  \<open>[5] z 0B\<close>, left from the larger block written two updates before and never cut off.
\<close>

theorem completed_line_left_in_tail:
  "fst (run showTime ''svc'' (freshLogger [] [])
       [StatusChurn (progress ''z'' 0 0 5 None), StatusChurn (progress ''a'' 1024 1024 5 None),
        StatusChurn (progress ''a'' 0 0 5 None), StatusChurn (progress ''z'' 0 0 5 (Some 5))]) = Ok \<and>
   currVertexStatuses (snd (run showTime ''svc'' (freshLogger [] [])
       [StatusChurn (progress ''z'' 0 0 5 None), StatusChurn (progress ''a'' 1024 1024 5 None),
        StatusChurn (progress ''a'' 0 0 5 None), StatusChurn (progress ''z'' 0 0 5 (Some 5))]))
     = [(''a'', ''[5] a 0B'')] \<and>
   permanent (snd (run showTime ''svc'' (freshLogger [] [])
       [StatusChurn (progress ''z'' 0 0 5 None), StatusChurn (progress ''a'' 1024 1024 5 None),
        StatusChurn (progress ''a'' 0 0 5 None), StatusChurn (progress ''z'' 0 0 5 (Some 5))])) ''svc''
     = ''[5] z 0B'' @ [LF] \<and>
   block (snd (run showTime ''svc'' (freshLogger [] [])
       [StatusChurn (progress ''z'' 0 0 5 None), StatusChurn (progress ''a'' 1024 1024 5 None),
        StatusChurn (progress ''a'' 0 0 5 None), StatusChurn (progress ''z'' 0 0 5 (Some 5))]))
     = ''[5] a 0B'' @ [LF] \<and>
   tail (snd (run showTime ''svc'' (freshLogger [] [])
       [StatusChurn (progress ''z'' 0 0 5 None), StatusChurn (progress ''a'' 1024 1024 5 None),
        StatusChurn (progress ''a'' 0 0 5 None), StatusChurn (progress ''z'' 0 0 5 (Some 5))])) ''svc''
     = ''[5] a 0B'' @ [LF] @ ''B'' @ [LF] @ ''[5] z 0B'' @ [LF]"
proof -
  let ?st0 = "freshLogger [] []"
  let ?e1 = "progress ''z'' 0 0 5 None"
  let ?e2 = "progress ''a'' 1024 1024 5 None"
  let ?e3 = "progress ''a'' 0 0 5 None"
  let ?e4 = "progress ''z'' 0 0 5 (Some 5)"
  have a: "faults ?st0 = []" by simp
  have b: "wellFormed ?st0" by (rule wellFormed_freshLogger)
  have i1: "idText (ID ?e1) = Some ''z''" and i2: "idText (ID ?e2) = Some ''a''"
    and i3: "idText (ID ?e3) = Some ''a''" and i4: "idText (ID ?e4) = Some ''z''" by simp_all
  define s1 where "s1 = snd (logStatus showTime ?st0 ''svc'' ?e1)"
  define s2 where "s2 = snd (logStatus showTime s1 ''svc'' ?e2)"
  define s3 where "s3 = snd (logStatus showTime s2 ''svc'' ?e3)"
  define s4 where "s4 = snd (logStatus showTime s3 ''svc'' ?e4)"
  note f1 = logStatus_effect [OF a b i1, of showTime "''svc''", folded s1_def]
  note f2 = logStatus_effect [OF f1(2) f1(3) i2, of showTime "''svc''", folded s2_def]
  note f3 = logStatus_effect [OF f2(2) f2(3) i3, of showTime "''svc''", folded s3_def]
  note f4 = logStatus_effect [OF f3(2) f3(3) i4, of showTime "''svc''", folded s4_def]
  have r: "run showTime ''svc'' ?st0
             [StatusChurn ?e1, StatusChurn ?e2, StatusChurn ?e3, StatusChurn ?e4] = (Ok, s4)"
    by (simp add: run_StatusChurn [OF a b i1] run_StatusChurn [OF f1(2) f1(3) i2]
        run_StatusChurn [OF f2(2) f2(3) i3] run_StatusChurn [OF f3(2) f3(3) i4]
        s1_def [symmetric] s2_def [symmetric] s3_def [symmetric] s4_def [symmetric])
  have m1: "currVertexStatuses s1 = [(''z'', ''[5] z 0B'')]"
    using f1(4) by (simp add: newStatuses_def statusText_def hrb_examples)
  have m2: "currVertexStatuses s2 = [(''z'', ''[5] z 0B''), (''a'', ''[5] a 1.00KB/1.00KB'')]"
    using f2(4) by (simp add: m1 newStatuses_def statusText_def hrb_examples)
  have m3: "currVertexStatuses s3 = [(''z'', ''[5] z 0B''), (''a'', ''[5] a 0B'')]"
    using f3(4) by (simp add: m2 newStatuses_def statusText_def hrb_examples)
  have m4: "currVertexStatuses s4 = [(''a'', ''[5] a 0B'')]"
    using f4(4) by (simp add: m3 newStatuses_def)
  have b1: "block s1 = ''[5] z 0B'' @ [LF]" by (simp add: block_def m1 statusLines_def)
  have b2: "block s2 = ''[5] a 1.00KB/1.00KB'' @ [LF] @ ''[5] z 0B'' @ [LF]"
    by (simp only: block_def m2 lines_az) simp
  have b3: "block s3 = ''[5] a 0B'' @ [LF] @ ''[5] z 0B'' @ [LF]"
    by (simp only: block_def m3 lines_az) simp
  have b4: "block s4 = ''[5] a 0B'' @ [LF]" by (simp add: block_def m4 statusLines_def)
  have t1: "tail s1 ''svc'' = ''[5] z 0B'' @ [LF]"
    using f1(6) by (simp add: b1 finalLine_def)
  have t2: "tail s2 ''svc'' = ''[5] a 1.00KB/1.00KB'' @ [LF] @ ''[5] z 0B'' @ [LF]"
    using f2(6) by (simp add: b2 t1 finalLine_def)
  have t3: "tail s3 ''svc'' = ''[5] a 0B'' @ [LF] @ ''[5] z 0B'' @ [LF] @ ''B'' @ [LF] @ ''[5] z 0B'' @ [LF]"
    using f3(6) by (simp add: b3 t2 finalLine_def)
  have t4: "tail s4 ''svc'' = ''[5] a 0B'' @ [LF] @ ''B'' @ [LF] @ ''[5] z 0B'' @ [LF]"
    using f4(6) by (simp add: b4 t3 finalLine_def statusText_def hrb_examples)
  have p3: "permanent s3 ''svc'' = []"
    using f1(5) f2(5) f3(5) by (simp add: finalLine_def)
  have p4: "permanent s4 ''svc'' = ''[5] z 0B'' @ [LF]"
    using f4(5) by (simp add: p3 finalLine_def statusText_def hrb_examples)
  show ?thesis
    by (intro conjI) (simp_all only: r fst_conv snd_conv m4 p4 b4 t4)
qed

text \<open>
  Claim C3. Every registered listener must be called once per committed permanent line,
  and not when the line fails to commit, and once per status re-render, with the latest
  status line only. The code breaks each part. In \<open>Log\<close> the listeners are called
  before the error of the write is looked at: in the first run the write fails (the
  third system call, after the directory and the file were made), \<open>Log\<close> returns the
  error, the file holds nothing, and listener 7 was called with the line. In
  \<open>logStatus\<close> the line passed on is the last line of the sorted block, followed by two
  line feeds: in the second run \<open>b\<close> and then \<open>a\<close> report progress, the latest status
  line is the one of \<open>a\<close>, and at both updates listener 7 was called with the line of
  \<open>b\<close>. In the third run \<open>a\<close> completes instead: its final line is committed to the
  permanent region, and listener 7 was again called with the line of \<open>b\<close>, never with
  the committed line.
\<close>

theorem listeners_miscalled:
  "fst (Log showTime (freshLogger [7] [False, False, True]) ''svc'' 5 ''hello'') = Err WriteFailed \<and>
   permanent (snd (Log showTime (freshLogger [7] [False, False, True]) ''svc'' 5 ''hello'')) ''svc'' = [] \<and>
   calls (snd (Log showTime (freshLogger [7] [False, False, True]) ''svc'' 5 ''hello'')) =
     [(7, ''svc'', ''hello'' @ [LF])] \<and>
   fst (run showTime ''svc'' (freshLogger [7] [])
       [StatusChurn (progress ''b'' 50 100 5 None), StatusChurn (progress ''a'' 1 0 6 None)]) = Ok \<and>
   currVertexStatuses (snd (run showTime ''svc'' (freshLogger [7] [])
       [StatusChurn (progress ''b'' 50 100 5 None), StatusChurn (progress ''a'' 1 0 6 None)]))
     = [(''b'', ''[5] b 50.00B/100.00B''), (''a'', ''[6] a 1.00B'')] \<and>
   calls (snd (run showTime ''svc'' (freshLogger [7] [])
       [StatusChurn (progress ''b'' 50 100 5 None), StatusChurn (progress ''a'' 1 0 6 None)]))
     = [(7, ''svc'', ''b 50.00B/100.00B'' @ [LF, LF]), (7, ''svc'', ''b 50.00B/100.00B'' @ [LF, LF])] \<and>
   fst (run showTime ''svc'' (freshLogger [7] [])
       [StatusChurn (progress ''b'' 50 100 5 None), StatusChurn (progress ''a'' 1 0 6 (Some 6))]) = Ok \<and>
   permanent (snd (run showTime ''svc'' (freshLogger [7] [])
       [StatusChurn (progress ''b'' 50 100 5 None), StatusChurn (progress ''a'' 1 0 6 (Some 6))])) ''svc''
     = ''[6] a 1.00B'' @ [LF] \<and>
   calls (snd (run showTime ''svc'' (freshLogger [7] [])
       [StatusChurn (progress ''b'' 50 100 5 None), StatusChurn (progress ''a'' 1 0 6 (Some 6))]))
     = [(7, ''svc'', ''b 50.00B/100.00B'' @ [LF, LF]), (7, ''svc'', ''b 50.00B/100.00B'' @ [LF, LF])]"
proof -
  have l: "fst (Log showTime (freshLogger [7] [False, False, True]) ''svc'' 5 ''hello'') = Err WriteFailed \<and>
   permanent (snd (Log showTime (freshLogger [7] [False, False, True]) ''svc'' 5 ''hello'')) ''svc'' = [] \<and>
   calls (snd (Log showTime (freshLogger [7] [False, False, True]) ''svc'' 5 ''hello'')) =
     [(7, ''svc'', ''hello'' @ [LF])]"
    by (simp add: Log_def logFile_def WriteString_def next_fault_def store_def notify_def
        permanent_def Trim_def Let_def freshLogger_def NewFlatfileLogger_def)
  let ?st0 = "freshLogger [7] []"
  let ?e1 = "progress ''b'' 50 100 5 None"
  let ?e2 = "progress ''a'' 1 0 6 None"
  have a: "faults ?st0 = []" by simp
  have b: "wellFormed ?st0" by (rule wellFormed_freshLogger)
  have i1: "idText (ID ?e1) = Some ''b''" and i2: "idText (ID ?e2) = Some ''a''" by simp_all
  define s1 where "s1 = snd (logStatus showTime ?st0 ''svc'' ?e1)"
  define s2 where "s2 = snd (logStatus showTime s1 ''svc'' ?e2)"
  note f1 = logStatus_effect [OF a b i1, of showTime "''svc''", folded s1_def]
  note f2 = logStatus_effect [OF f1(2) f1(3) i2, of showTime "''svc''", folded s2_def]
  have r: "run showTime ''svc'' ?st0 [StatusChurn ?e1, StatusChurn ?e2] = (Ok, s2)"
    by (simp add: run_StatusChurn [OF a b i1] run_StatusChurn [OF f1(2) f1(3) i2]
        s1_def [symmetric] s2_def [symmetric])
  have m1: "currVertexStatuses s1 = [(''b'', ''[5] b 50.00B/100.00B'')]"
    using f1(4) by (simp add: newStatuses_def statusText_def hrb_examples)
  have m2: "currVertexStatuses s2 = [(''b'', ''[5] b 50.00B/100.00B''), (''a'', ''[6] a 1.00B'')]"
    using f2(4) by (simp add: m1 newStatuses_def statusText_def)
  have sl1: "statusLines [(''b'', ''[5] b 50.00B/100.00B'')] = [''[5] b 50.00B/100.00B'' @ [LF]]"
    by (simp add: statusLines_def)
  have c1: "calls s1 = [(7, ''svc'', ''b 50.00B/100.00B'' @ [LF, LF])]"
    using f1(11) by (simp only: m1 sl1) (simp add: announced_def)
  have c2: "calls s2 = [(7, ''svc'', ''b 50.00B/100.00B'' @ [LF, LF]),
                        (7, ''svc'', ''b 50.00B/100.00B'' @ [LF, LF])]"
    using f2(11) f1(7) by (simp only: m2 lines_az c1) (simp add: announced_def)
  have s: "fst (run showTime ''svc'' ?st0 [StatusChurn ?e1, StatusChurn ?e2]) = Ok \<and>
     currVertexStatuses (snd (run showTime ''svc'' ?st0 [StatusChurn ?e1, StatusChurn ?e2]))
       = [(''b'', ''[5] b 50.00B/100.00B''), (''a'', ''[6] a 1.00B'')] \<and>
     calls (snd (run showTime ''svc'' ?st0 [StatusChurn ?e1, StatusChurn ?e2]))
       = [(7, ''svc'', ''b 50.00B/100.00B'' @ [LF, LF]), (7, ''svc'', ''b 50.00B/100.00B'' @ [LF, LF])]"
    by (simp only: r fst_conv snd_conv m2 c2)
  let ?e3 = "progress ''a'' 1 0 6 (Some 6)"
  have i3: "idText (ID ?e3) = Some ''a''" by simp
  define s3 where "s3 = snd (logStatus showTime s1 ''svc'' ?e3)"
  note f3 = logStatus_effect [OF f1(2) f1(3) i3, of showTime "''svc''", folded s3_def]
  have r3: "run showTime ''svc'' ?st0 [StatusChurn ?e1, StatusChurn ?e3] = (Ok, s3)"
    by (simp add: run_StatusChurn [OF a b i1] run_StatusChurn [OF f1(2) f1(3) i3]
        s1_def [symmetric] s3_def [symmetric])
  have m3: "currVertexStatuses s3 = [(''b'', ''[5] b 50.00B/100.00B'')]"
    using f3(4) by (simp add: m1 newStatuses_def)
  have p1: "permanent s1 ''svc'' = []" using f1(5) by (simp add: finalLine_def)
  have p3: "permanent s3 ''svc'' = ''[6] a 1.00B'' @ [LF]"
    using f3(5) by (simp add: p1 finalLine_def statusText_def)
  have c3: "calls s3 = [(7, ''svc'', ''b 50.00B/100.00B'' @ [LF, LF]),
                        (7, ''svc'', ''b 50.00B/100.00B'' @ [LF, LF])]"
    using f3(11) f1(7) by (simp only: m3 sl1 c1) (simp add: announced_def)
  have u: "fst (run showTime ''svc'' ?st0 [StatusChurn ?e1, StatusChurn ?e3]) = Ok \<and>
     permanent (snd (run showTime ''svc'' ?st0 [StatusChurn ?e1, StatusChurn ?e3])) ''svc''
       = ''[6] a 1.00B'' @ [LF] \<and>
     calls (snd (run showTime ''svc'' ?st0 [StatusChurn ?e1, StatusChurn ?e3]))
       = [(7, ''svc'', ''b 50.00B/100.00B'' @ [LF, LF]), (7, ''svc'', ''b 50.00B/100.00B'' @ [LF, LF])]"
    by (simp only: r3 fst_conv snd_conv p3 c3)
  show ?thesis
    by (intro conjI)
      (rule l [THEN conjunct1], rule l [THEN conjunct2, THEN conjunct1],
       rule l [THEN conjunct2, THEN conjunct2], rule s [THEN conjunct1],
       rule s [THEN conjunct2, THEN conjunct1], rule s [THEN conjunct2, THEN conjunct2],
       rule u [THEN conjunct1], rule u [THEN conjunct2, THEN conjunct1],
       rule u [THEN conjunct2, THEN conjunct2])
qed

lemma statusChangeRecent_parsed:
  "map (\<lambda>t. parseTime (trimSpace t)) nodeTimes = map Some instants \<Longrightarrow>
     statusChangeRecent trimSpace parseTime clk i nodeTimes recent =
       Inr (recent \<or> (\<exists>j < length nodeTimes. clk (i + j) < instants ! j + Minute))"
proof (induction nodeTimes arbitrary: i recent instants)
  case Nil
  then show ?case by simp
next
  case (Cons t ts)
  from Cons.prems obtain x xs where instants: "instants = x # xs"
    and x: "parseTime (trimSpace t) = Some x"
    and xs: "map (\<lambda>t. parseTime (trimSpace t)) ts = map Some xs"
    by (cases instants) auto
  have ex: "(\<exists>j < Suc (length ts). clk (i + j) < (x # xs) ! j + Minute) \<longleftrightarrow>
            clk i < x + Minute \<or> (\<exists>j < length ts. clk (Suc i + j) < xs ! j + Minute)"
  proof
    assume "\<exists>j < Suc (length ts). clk (i + j) < (x # xs) ! j + Minute"
    then obtain j where j: "j < Suc (length ts)" "clk (i + j) < (x # xs) ! j + Minute" by blast
    show "clk i < x + Minute \<or> (\<exists>j < length ts. clk (Suc i + j) < xs ! j + Minute)"
    proof (cases j)
      case 0
      then show ?thesis using j by simp
    next
      case (Suc k)
      then have "k < length ts" "clk (Suc i + k) < xs ! k + Minute" using j by simp_all
      then show ?thesis by blast
    qed
  next
    assume "clk i < x + Minute \<or> (\<exists>j < length ts. clk (Suc i + j) < xs ! j + Minute)"
    then show "\<exists>j < Suc (length ts). clk (i + j) < (x # xs) ! j + Minute"
    proof
      assume "clk i < x + Minute"
      then have "0 < Suc (length ts) \<and> clk (i + 0) < (x # xs) ! 0 + Minute" by simp
      then show ?thesis by blast
    next
      assume "\<exists>j < length ts. clk (Suc i + j) < xs ! j + Minute"
      then obtain k where "k < length ts" "clk (Suc i + k) < xs ! k + Minute" by blast
      then have "Suc k < Suc (length ts) \<and> clk (i + Suc k) < (x # xs) ! Suc k + Minute" by simp
      then show ?thesis by blast
    qed
  qed
  show ?case
    using Cons.IH [OF xs, of "Suc i" "if x + Minute > clk i then True else recent"] ex
    by (auto simp: x instants)
qed

lemma checkCluster_topology:
  assumes "length nodes = 4" and "set requiredContainersRunning \<subseteq> set nodes"
  shows "checkCluster trimSpace parseTime (Inr nodes) kubectl clk answers =
           checkClusterReady trimSpace parseTime kubectl clk answers"
  using assms by (auto simp: checkCluster_def requiredContainersRunning_def)

lemma checkClusterReady_parsed:
  assumes "Split out TAB = [ts, rs]" and "length (Split ts (CHR '' '')) = 4"
  shows "checkClusterReady trimSpace parseTime (Inr out) clk answers =
     (if allNodesReady trimSpace (Split rs (CHR '' '')) then None
      else (case statusChangeRecent trimSpace parseTime clk 0 (Split ts (CHR '' '')) False of
              Inl err \<Rightarrow> Some err
            | Inr recent \<Rightarrow> if recent then askRedeploy answers else Some NotReadyForOverAMinute))"
  using assms by (simp add: checkClusterReady_def Let_def)

text \<open>
  Claim C2, as the code has it. The ladder of \<open>checkCluster\<close>, in order: no node gives the
  error that the cluster has to be provisioned; a number of nodes other than four gives
  the error that nodes were removed or crashed, and four nodes without one of the four
  required names the error that some were not running; with the four required nodes and a
  well-formed answer of \<open>kubectl\<close> for four nodes, all nodes ready gives \<open>nil\<close>; some
  node not ready and at least one node's last transition less than a minute before the
  clock reading asks the operator, where \<open>y\<close> or \<open>Y\<close> gives the error that a redeploy was
  chosen and \<open>n\<close>, \<open>N\<close> or an empty answer gives \<open>nil\<close>; some node not ready and every
  node's last transition a minute or more old gives the error that the cluster has not
  been ready for over a minute.
\<close>

theorem health_ladder:
  "checkCluster trimSpace parseTime (Inr []) kubectl clk answers = Some NoNodesRunning \<and>
   (nodes \<noteq> [] \<and> length nodes \<noteq> 4 \<longrightarrow>
      checkCluster trimSpace parseTime (Inr nodes) kubectl clk answers =
        Some (NodesRemovedOrCrashed (length nodes) 4)) \<and>
   (length nodes = 4 \<and> \<not> set requiredContainersRunning \<subseteq> set nodes \<longrightarrow>
      checkCluster trimSpace parseTime (Inr nodes) kubectl clk answers = Some SomeNodesNotRunning) \<and>
   (length nodes = 4 \<and> set requiredContainersRunning \<subseteq> set nodes \<and>
    Split out TAB = [ts, rs] \<and> length (Split ts (CHR '' '')) = 4 \<longrightarrow>
      (allNodesReady trimSpace (Split rs (CHR '' '')) \<longrightarrow>
         checkCluster trimSpace parseTime (Inr nodes) (Inr out) clk answers = None) \<and>
      (\<not> allNodesReady trimSpace (Split rs (CHR '' '')) \<and>
       map (\<lambda>t. parseTime (trimSpace t)) (Split ts (CHR '' '')) = map Some instants \<longrightarrow>
         ((\<exists>j<4. clk j < instants ! j + Minute) \<longrightarrow>
            checkCluster trimSpace parseTime (Inr nodes) (Inr out) clk answers =
              askRedeploy answers) \<and>
         ((\<forall>j<4. instants ! j + Minute \<le> clk j) \<longrightarrow>
            checkCluster trimSpace parseTime (Inr nodes) (Inr out) clk answers =
              Some NotReadyForOverAMinute))) \<and>
   askRedeploy (''y'' # later) = Some ChoseToRedeploy \<and>
   askRedeploy (''Y'' # later) = Some ChoseToRedeploy \<and>
   askRedeploy (''n'' # later) = None \<and>
   askRedeploy (''N'' # later) = None \<and>
   askRedeploy ([] # later) = None \<and>
   askRedeploy [] = None"
proof -
  have l4: "length requiredContainersRunning = 4" by (simp add: requiredContainersRunning_def)
  have a: "checkCluster trimSpace parseTime (Inr []) kubectl clk answers = Some NoNodesRunning"
    by (simp add: checkCluster_def)
  have b: "checkCluster trimSpace parseTime (Inr nodes) kubectl clk answers =
        Some (NodesRemovedOrCrashed (length nodes) 4)"
    if "nodes \<noteq> [] \<and> length nodes \<noteq> 4"
    using that by (simp add: checkCluster_def l4)
  have c: "checkCluster trimSpace parseTime (Inr nodes) kubectl clk answers = Some SomeNodesNotRunning"
    if "length nodes = 4 \<and> \<not> set requiredContainersRunning \<subseteq> set nodes"
    using that by (auto simp: checkCluster_def l4)
  have d: "(allNodesReady trimSpace (Split rs (CHR '' '')) \<longrightarrow>
         checkCluster trimSpace parseTime (Inr nodes) (Inr out) clk answers = None) \<and>
      (\<not> allNodesReady trimSpace (Split rs (CHR '' '')) \<and>
       map (\<lambda>t. parseTime (trimSpace t)) (Split ts (CHR '' '')) = map Some instants \<longrightarrow>
         ((\<exists>j<4. clk j < instants ! j + Minute) \<longrightarrow>
            checkCluster trimSpace parseTime (Inr nodes) (Inr out) clk answers =
              askRedeploy answers) \<and>
         ((\<forall>j<4. instants ! j + Minute \<le> clk j) \<longrightarrow>
            checkCluster trimSpace parseTime (Inr nodes) (Inr out) clk answers =
              Some NotReadyForOverAMinute))"
    if h: "length nodes = 4 \<and> set requiredContainersRunning \<subseteq> set nodes \<and>
           Split out TAB = [ts, rs] \<and> length (Split ts (CHR '' '')) = 4"
  proof -
    from h have n4: "length nodes = 4" and req: "set requiredContainersRunning \<subseteq> set nodes"
      and sp: "Split out TAB = [ts, rs]" and t4: "length (Split ts (CHR '' '')) = 4" by simp_all
    have e: "checkCluster trimSpace parseTime (Inr nodes) (Inr out) clk answers =
     (if allNodesReady trimSpace (Split rs (CHR '' '')) then None
      else (case statusChangeRecent trimSpace parseTime clk 0 (Split ts (CHR '' '')) False of
              Inl err \<Rightarrow> Some err
            | Inr recent \<Rightarrow> if recent then askRedeploy answers else Some NotReadyForOverAMinute))"
      by (simp only: checkCluster_topology [OF n4 req] checkClusterReady_parsed [OF sp t4])
    have r: "statusChangeRecent trimSpace parseTime clk 0 (Split ts (CHR '' '')) False =
               Inr (\<exists>j<4. clk j < instants ! j + Minute)"
      if "map (\<lambda>t. parseTime (trimSpace t)) (Split ts (CHR '' '')) = map Some instants"
      using statusChangeRecent_parsed [where parseTime = parseTime and trimSpace = trimSpace
          and nodeTimes = "Split ts (CHR '' '')" and instants = instants and clk = clk
          and i = 0 and recent = False, OF that]
      by (simp add: t4)
    have nr: "\<not> (\<exists>j<4. clk j < instants ! j + Minute)" if "\<forall>j<4. instants ! j + Minute \<le> clk j"
      using that by (auto simp: not_less)
    show ?thesis using r nr by (auto simp: e)
  qed
  have f: "askRedeploy (''y'' # later) = Some ChoseToRedeploy \<and>
   askRedeploy (''Y'' # later) = Some ChoseToRedeploy \<and>
   askRedeploy (''n'' # later) = None \<and>
   askRedeploy (''N'' # later) = None \<and>
   askRedeploy ([] # later) = None \<and>
   askRedeploy [] = None" by simp
  show ?thesis using a b c d f by blast
qed

lemma Split_transitions:
  "Split (fresh @ '' '' @ stale @ '' '' @ stale @ '' '' @ stale) (CHR '' '') = [fresh, stale, stale, stale]"
  "Split (stale @ '' '' @ stale @ '' '' @ stale @ '' '' @ stale) (CHR '' '') = [stale, stale, stale, stale]"
  by (simp_all add: fresh_def stale_def)

lemma Split_readiness:
  "Split ''True True True True'' (CHR '' '') = [''True'', ''True'', ''True'', ''True'']"
  "Split ''False True True True'' (CHR '' '') = [''False'', ''True'', ''True'', ''True'']"
  "Split ''True False True True'' (CHR '' '') = [''True'', ''False'', ''True'', ''True'']"
  by simp_all

lemma Split_output:
  "Split (kubectlOutput [fresh, stale, stale, stale] [''True'', ''True'', ''True'', ''True'']) TAB
     = [fresh @ '' '' @ stale @ '' '' @ stale @ '' '' @ stale, ''True True True True'']"
  "Split (kubectlOutput [fresh, stale, stale, stale] [''False'', ''True'', ''True'', ''True'']) TAB
     = [fresh @ '' '' @ stale @ '' '' @ stale @ '' '' @ stale, ''False True True True'']"
  "Split (kubectlOutput [stale, stale, stale, stale] [''False'', ''True'', ''True'', ''True'']) TAB
     = [stale @ '' '' @ stale @ '' '' @ stale @ '' '' @ stale, ''False True True True'']"
  "Split (kubectlOutput [fresh, stale, stale, stale] [''True'', ''False'', ''True'', ''True'']) TAB
     = [fresh @ '' '' @ stale @ '' '' @ stale @ '' '' @ stale, ''True False True True'']"
  by (simp_all add: kubectlOutput_def fresh_def stale_def)

lemma trimSpaceASCII_examples [simp]:
  "trimSpaceASCII ''True'' = ''True''" "trimSpaceASCII ''False'' = ''False''"
  "trimSpaceASCII fresh = fresh" "trimSpaceASCII stale = stale"
  by (simp_all add: trimSpaceASCII_def Trim_def fresh_def stale_def)

lemma parseExample_examples [simp]:
  "parseExample fresh = Some (1559437442 * 1000000000)"
  "parseExample stale = Some (1559437140 * 1000000000)"
  by (simp_all add: parseExample_def fresh_def stale_def)

lemma fourNodes_ok: "length fourNodes = 4" "set requiredContainersRunning \<subseteq> set fourNodes"
  by (simp_all add: fourNodes_def requiredContainersRunning_def)

text \<open>
  The statement at four nodes, at 01:04:12 on the clock: all ready is healthy; the first
  node not ready with a transition ten seconds old asks, and \<open>y\<close> fails; the first node
  not ready with all transitions five minutes old is fatal.
\<close>

theorem health_ladder_witness:
  "checkCluster trimSpaceASCII parseExample (Inr fourNodes)
     (Inr (kubectlOutput [fresh, stale, stale, stale] [''True'', ''True'', ''True'', ''True'']))
     clockExample [] = None \<and>
   checkCluster trimSpaceASCII parseExample (Inr fourNodes)
     (Inr (kubectlOutput [fresh, stale, stale, stale] [''False'', ''True'', ''True'', ''True'']))
     clockExample [''y''] = Some ChoseToRedeploy \<and>
   checkCluster trimSpaceASCII parseExample (Inr fourNodes)
     (Inr (kubectlOutput [stale, stale, stale, stale] [''False'', ''True'', ''True'', ''True'']))
     clockExample [] = Some NotReadyForOverAMinute"
proof -
  let ?ts1 = "fresh @ '' '' @ stale @ '' '' @ stale @ '' '' @ stale"
  let ?ts2 = "stale @ '' '' @ stale @ '' '' @ stale @ '' '' @ stale"
  let ?i1 = "[1559437442 * 1000000000, 1559437140 * 1000000000, 1559437140 * 1000000000,
              1559437140 * 1000000000 :: int]"
  let ?i2 = "[1559437140 * 1000000000, 1559437140 * 1000000000, 1559437140 * 1000000000,
              1559437140 * 1000000000 :: int]"
  have ready: "allNodesReady trimSpaceASCII (Split ''True True True True'' (CHR '' ''))"
    by (simp add: allNodesReady_def Split_readiness)
  have notready: "\<not> allNodesReady trimSpaceASCII (Split ''False True True True'' (CHR '' ''))"
    by (simp add: allNodesReady_def Split_readiness)
  have p1: "map (\<lambda>t. parseExample (trimSpaceASCII t)) (Split ?ts1 (CHR '' '')) = map Some ?i1"
    by (simp only: Split_transitions) simp
  have p2: "map (\<lambda>t. parseExample (trimSpaceASCII t)) (Split ?ts2 (CHR '' '')) = map Some ?i2"
    by (simp only: Split_transitions) simp
  have recent: "\<exists>j<4. clockExample j < ?i1 ! j + Minute"
    by (rule exI [of _ 0]) (simp add: clockExample_def Minute_def)
  have old: "\<forall>j<4. ?i2 ! j + Minute \<le> clockExample j"
  proof (intro allI impI)
    fix j :: nat assume "j < 4"
    then have "j \<in> {0, 1, 2, 3}" by auto
    then show "?i2 ! j + Minute \<le> clockExample j"
      by (auto simp: clockExample_def Minute_def)
  qed
  have s1: "Split (kubectlOutput [fresh, stale, stale, stale] [''True'', ''True'', ''True'', ''True'']) TAB
              = [?ts1, ''True True True True'']"
    by (rule Split_output)
  have s2: "Split (kubectlOutput [fresh, stale, stale, stale] [''False'', ''True'', ''True'', ''True'']) TAB
              = [?ts1, ''False True True True'']"
    by (rule Split_output)
  have s3: "Split (kubectlOutput [stale, stale, stale, stale] [''False'', ''True'', ''True'', ''True'']) TAB
              = [?ts2, ''False True True True'']"
    by (rule Split_output)
  have l1: "length (Split ?ts1 (CHR '' '')) = 4" and l2: "length (Split ?ts2 (CHR '' '')) = 4"
    by (simp_all only: Split_transitions) simp_all
  have a: "checkCluster trimSpaceASCII parseExample (Inr fourNodes)
     (Inr (kubectlOutput [fresh, stale, stale, stale] [''True'', ''True'', ''True'', ''True'']))
     clockExample [] = None"
    using health_ladder [where nodes = fourNodes and ts = ?ts1 and rs = "''True True True True''"
        and out = "kubectlOutput [fresh, stale, stale, stale] [''True'', ''True'', ''True'', ''True'']"
        and trimSpace = trimSpaceASCII and parseTime = parseExample and clk = clockExample
        and answers = "[]"]
      fourNodes_ok s1 l1 ready by blast
  have b: "checkCluster trimSpaceASCII parseExample (Inr fourNodes)
     (Inr (kubectlOutput [fresh, stale, stale, stale] [''False'', ''True'', ''True'', ''True'']))
     clockExample [''y''] = askRedeploy [''y'']"
    using health_ladder [where nodes = fourNodes and ts = ?ts1 and rs = "''False True True True''"
        and out = "kubectlOutput [fresh, stale, stale, stale] [''False'', ''True'', ''True'', ''True'']"
        and trimSpace = trimSpaceASCII and parseTime = parseExample and clk = clockExample
        and answers = "[''y'']" and instants = ?i1]
      fourNodes_ok s2 l1 notready p1 recent by blast
  have c: "checkCluster trimSpaceASCII parseExample (Inr fourNodes)
     (Inr (kubectlOutput [stale, stale, stale, stale] [''False'', ''True'', ''True'', ''True'']))
     clockExample [] = Some NotReadyForOverAMinute"
    using health_ladder [where nodes = fourNodes and ts = ?ts2 and rs = "''False True True True''"
        and out = "kubectlOutput [stale, stale, stale, stale] [''False'', ''True'', ''True'', ''True'']"
        and trimSpace = trimSpaceASCII and parseTime = parseExample and clk = clockExample
        and answers = "[]" and instants = ?i2]
      fourNodes_ok s3 l2 notready p2 old by blast
  show ?thesis using a b c by simp
qed

text \<open>
  Claim C2 as stated fails at its fourth and fifth rung. The second node is not ready and
  its last transition is more than five minutes old, so not every node's transition is
  within the minute; the first node is ready and changed ten seconds ago. The claim says
  the check is fatal; the code asks the operator, and with no answer returns \<open>nil\<close>.
\<close>

theorem health_ladder_counterexample:
  "checkCluster trimSpaceASCII parseExample (Inr fourNodes)
     (Inr (kubectlOutput [fresh, stale, stale, stale] [''True'', ''False'', ''True'', ''True'']))
     clockExample [] = None \<and>
   checkCluster trimSpaceASCII parseExample (Inr fourNodes)
     (Inr (kubectlOutput [fresh, stale, stale, stale] [''True'', ''False'', ''True'', ''True'']))
     clockExample [] \<noteq> Some NotReadyForOverAMinute \<and>
   trimSpaceASCII ([''True'', ''False'', ''True'', ''True''] ! 1) \<noteq> ''True'' \<and>
   parseExample (trimSpaceASCII ([fresh, stale, stale, stale] ! 1)) = Some (1559437140 * 1000000000) \<and>
   1559437140 * 1000000000 + 5 * Minute < clockExample 1"
proof -
  let ?ts1 = "fresh @ '' '' @ stale @ '' '' @ stale @ '' '' @ stale"
  have s: "Split (kubectlOutput [fresh, stale, stale, stale] [''True'', ''False'', ''True'', ''True'']) TAB
              = [?ts1, ''True False True True'']"
    by (rule Split_output)
  have l1: "length (Split ?ts1 (CHR '' '')) = 4" by (simp only: Split_transitions) simp
  have sc: "statusChangeRecent trimSpaceASCII parseExample clockExample 0 (Split ?ts1 (CHR '' '')) False
              = Inr True"
    by (simp only: Split_transitions) (simp add: clockExample_def Minute_def)
  have nr: "\<not> allNodesReady trimSpaceASCII (Split ''True False True True'' (CHR '' ''))"
    by (simp add: allNodesReady_def Split_readiness)
  have r: "checkCluster trimSpaceASCII parseExample (Inr fourNodes)
     (Inr (kubectlOutput [fresh, stale, stale, stale] [''True'', ''False'', ''True'', ''True'']))
     clockExample [] = None"
    by (simp only: checkCluster_topology [OF fourNodes_ok] checkClusterReady_parsed [OF s l1]
        nr sc if_False if_True sum.case askRedeploy.simps)
  show ?thesis by (simp add: r clockExample_def Minute_def)
qed

end
